theory Spec2Isabelle
  imports Main
begin

section \<open>Errors as values\<close>

text \<open>
  Every place where \<^verbatim>\<open>eval_peephole.cpp\<close> can throw becomes a value of
  \<open>error\<close>: \<^verbatim>\<open>at(i)\<close> out of range, an attribute accessor
  (\<^verbatim>\<open>f\<close>, \<^verbatim>\<open>t\<close>) on a missing or differently typed attribute,
  \<^verbatim>\<open>toTensor\<close> on a binding that is not a tensor, a failed internal
  assertion of the IR, a broadcast of incompatible shapes, and the dereference of a
  pointer that names no live object.
\<close>

datatype error =
    OutOfRange
  | AttributeError
  | NotATensor
  | AssertionFailure
  | ShapeMismatch
  | DanglingPointer
  | NestedBlocksOnDestroy

definition ebind :: "error + 'x \<Rightarrow> ('x \<Rightarrow> error + 'y) \<Rightarrow> error + 'y" where
  "ebind r k = (case r of Inl e \<Rightarrow> Inl e | Inr x \<Rightarrow> k x)"

definition at_index :: "'x list \<Rightarrow> nat \<Rightarrow> error + 'x" where
  \<comment> \<open>\<^verbatim>\<open>ArrayRef::at(i)\<close>: checked indexing\<close>
  "at_index xs i = (if i < length xs then Inr (xs ! i) else Inl OutOfRange)"


section \<open>Object stores\<close>

text \<open>
  The objects of one kind live in a store: a reference is an index, a freed or never
  allocated reference holds nothing, and a new object takes the first index that was
  never used (\<open>fresh\<close>), so that a new reference differs from every reference handed out
  before.
\<close>

type_synonym 'x store = "'x option list"

definition lookup :: "'x store \<Rightarrow> nat \<Rightarrow> 'x option" where
  "lookup s p = (if p < length s then s ! p else None)"

definition fresh :: "'x store \<Rightarrow> nat" where
  "fresh s = length s"

definition alloc :: "'x store \<Rightarrow> 'x \<Rightarrow> 'x store" where
  "alloc s x = s @ [Some x]"

definition put :: "'x store \<Rightarrow> nat \<Rightarrow> 'x \<Rightarrow> 'x store" where
  "put s p x =
     (if p < length s then s[p := Some x] else s @ replicate (p - length s) None @ [Some x])"

definition free :: "'x store \<Rightarrow> nat \<Rightarrow> 'x store" where
  "free s p = s[p := None]"

definition free_list :: "'x store \<Rightarrow> nat list \<Rightarrow> 'x store" where
  "free_list s ps = foldl free s ps"

definition deref :: "'x store \<Rightarrow> nat \<Rightarrow> error + 'x" where
  "deref s p = (case lookup s p of None \<Rightarrow> Inl DanglingPointer | Some x \<Rightarrow> Inr x)"

section \<open>Dense tensors\<close>

text \<open>
  The tensor library is an external collaborator of the pass. A tensor handle
  (\<^verbatim>\<open>at::Tensor\<close>) is a reference into a store of tensor objects, so that two
  handles may alias and an in-place write through one is visible through the other.
  A tensor object has an element dtype, a shape and its elements in row-major order.
  The element type \<open>'a\<close> and the scalar arithmetic on it are parameters
  (\<open>scalar_ops\<close>): nothing below depends on how floating-point numbers round.
\<close>

datatype ScalarType = Byte | Char | Short | Int | Long | Half | Float | Double | Bool | BFloat16

fun isFloatingType :: "ScalarType \<Rightarrow> bool" where
  "isFloatingType Half = True"
| "isFloatingType Float = True"
| "isFloatingType Double = True"
| "isFloatingType BFloat16 = True"
| "isFloatingType _ = False"

record 'a TensorImpl =
  t_dtype :: ScalarType
  t_sizes :: "nat list"
  t_data :: "'a list"

record 'a scalar_ops =
  s_add :: "'a \<Rightarrow> 'a \<Rightarrow> 'a"
  s_sub :: "'a \<Rightarrow> 'a \<Rightarrow> 'a"
  s_mul :: "'a \<Rightarrow> 'a \<Rightarrow> 'a"
  s_div :: "'a \<Rightarrow> 'a \<Rightarrow> 'a"
  s_sqrt :: "'a \<Rightarrow> 'a"
  result_type :: "ScalarType \<Rightarrow> ScalarType \<Rightarrow> ScalarType"

definition is_floating_point :: "'a TensorImpl \<Rightarrow> bool" where
  "is_floating_point t = isFloatingType (t_dtype t)"

definition dim :: "'a TensorImpl \<Rightarrow> nat" where
  "dim t = length (t_sizes t)"

definition size0 :: "'a TensorImpl \<Rightarrow> nat" where
  \<comment> \<open>\<^verbatim>\<open>size(0)\<close>; the source only calls it behind a check of \<^verbatim>\<open>dim()\<close>\<close>
  "size0 t = (case t_sizes t of [] \<Rightarrow> 0 | n # _ \<Rightarrow> n)"

definition add_scalar :: "'a scalar_ops \<Rightarrow> 'a TensorImpl \<Rightarrow> 'a \<Rightarrow> 'a TensorImpl" where
  \<comment> \<open>\<^verbatim>\<open>t.add(epsilon)\<close>: a scalar operand keeps the dtype of a floating tensor\<close>
  "add_scalar ops t c = t\<lparr>t_data := map (\<lambda>x. s_add ops x c) (t_data t)\<rparr>"

definition sqrt_tensor :: "'a scalar_ops \<Rightarrow> 'a TensorImpl \<Rightarrow> 'a TensorImpl" where
  "sqrt_tensor ops t = t\<lparr>t_data := map (s_sqrt ops) (t_data t)\<rparr>"

text \<open>
  A binary operation \<^verbatim>\<open>a.op(v)\<close> whose right operand \<open>v\<close> is one-dimensional of
  length \<open>c\<close>. Broadcasting aligns \<open>v\<close> with the last dimension of \<open>a\<close>: a scalar
  \<open>a\<close> is expanded to \<open>[c]\<close>; a last dimension equal to \<open>c\<close> is combined
  elementwise; a last dimension of size 1 is expanded to \<open>c\<close>; \<open>c = 1\<close> expands
  \<open>v\<close>; everything else is a shape error.
\<close>

definition broadcast_vec ::
  "'a scalar_ops \<Rightarrow> ('a \<Rightarrow> 'a \<Rightarrow> 'a) \<Rightarrow> 'a TensorImpl \<Rightarrow> 'a TensorImpl \<Rightarrow> error + 'a TensorImpl" where
  "broadcast_vec ops f a v =
     (let c = size0 v; dt = result_type ops (t_dtype a) (t_dtype v) in
      if t_sizes a = [] then
        Inr \<lparr>t_dtype = dt, t_sizes = [c], t_data = map (f (hd (t_data a))) (t_data v)\<rparr>
      else if last (t_sizes a) = c then
        Inr \<lparr>t_dtype = dt, t_sizes = t_sizes a,
             t_data = map (\<lambda>j. f (t_data a ! j) (t_data v ! (j mod c))) [0 ..< length (t_data a)]\<rparr>
      else if last (t_sizes a) = 1 then
        Inr \<lparr>t_dtype = dt, t_sizes = butlast (t_sizes a) @ [c],
             t_data = concat (map (\<lambda>x. map (f x) (t_data v)) (t_data a))\<rparr>
      else if c = 1 then
        Inr \<lparr>t_dtype = dt, t_sizes = t_sizes a, t_data = map (\<lambda>x. f x (hd (t_data v))) (t_data a)\<rparr>
      else Inl ShapeMismatch)"

definition row_len :: "'a TensorImpl \<Rightarrow> nat" where
  \<comment> \<open>number of elements of one slice \<^verbatim>\<open>t[i]\<close> along dimension 0\<close>
  "row_len t = prod_list (tl (t_sizes t))"

definition scale_row :: "'a scalar_ops \<Rightarrow> 'a TensorImpl \<Rightarrow> nat \<Rightarrow> 'a \<Rightarrow> 'a TensorImpl" where
  \<comment> \<open>\<^verbatim>\<open>w[i] = w[i].mul(s)\<close>: the slice \<open>i\<close> of \<open>w\<close> is overwritten in place\<close>
  "scale_row ops w i s =
     (let r = row_len w; d = t_data w in
      w\<lparr>t_data := take (i * r) d @ map (\<lambda>x. s_mul ops x s) (take r (drop (i * r) d)) @ drop (i * r + r) d\<rparr>)"

section \<open>The graph IR\<close>

text \<open>
  Nodes, values and blocks are heap objects named by references; the pass mutates them
  through pointers, so the model keeps one store per kind of object. A value records its
  defining node and its uses (consuming node, input position). A block owns an ordered
  node list, a \<open>prim::Param\<close> node whose outputs are the block's inputs and a
  \<open>prim::Return\<close> node whose inputs are the block's outputs; neither of the two is a
  member of the node list. The graph's inputs are the inputs of its root block.
\<close>

type_synonym value_ref = nat
type_synonym node_ref = nat
type_synonym block_ref = nat
type_synonym tensor_ref = nat

datatype Symbol =
    onnx_Conv
  | onnx_BatchNormalization
  | onnx_Constant
  | prim_Param
  | prim_Return
  | other_kind string

datatype 'a AttributeValue =
    FloatAttr 'a
  | TensorAttr tensor_ref
  | IntAttr int
  | IntsAttr "int list"
  | StringAttr string

datatype JitType = DynamicTensorType | TensorType ScalarType "nat list" | OtherType string

datatype IValue = TensorIValue tensor_ref | OtherIValue

record 'a Node =
  n_kind :: Symbol
  n_inputs :: "value_ref list"
  n_outputs :: "value_ref list"
  n_attrs :: "(string \<times> 'a AttributeValue) list"
  n_blocks :: "block_ref list"
  n_owning_block :: "block_ref option"

record Value =
  v_node :: node_ref
  v_offset :: nat
  v_name :: "string option"
  v_uses :: "(node_ref \<times> nat) list"
  v_type :: JitType

record Block =
  b_param :: node_ref
  b_return :: node_ref
  b_nodes :: "node_ref list"

record 'a heap =
  nodes :: "'a Node store"
  vals :: "Value store"
  blocks :: "Block store"
  root_block :: block_ref
  tensors :: "'a TensorImpl store"

type_synonym ValueToParamPairMap = "value_ref \<rightharpoonup> (string \<times> IValue)"
type_synonym ParamMap = "string \<rightharpoonup> IValue"

subsection \<open>Tensor handles\<close>

definition new_tensor :: "'a heap \<Rightarrow> 'a TensorImpl \<Rightarrow> 'a heap \<times> tensor_ref" where
  "new_tensor h t = (h\<lparr>tensors := alloc (tensors h) t\<rparr>, fresh (tensors h))"

definition clone :: "'a heap \<Rightarrow> tensor_ref \<Rightarrow> error + ('a heap \<times> tensor_ref)" where
  \<comment> \<open>\<^verbatim>\<open>t.clone()\<close>: a new tensor object with the same contents\<close>
  "clone h r = ebind (deref (tensors h) r) (\<lambda>t. Inr (new_tensor h t))"

definition toTensor :: "IValue \<Rightarrow> error + tensor_ref" where
  "toTensor iv = (case iv of TensorIValue r \<Rightarrow> Inr r | OtherIValue \<Rightarrow> Inl NotATensor)"

subsection \<open>Attributes\<close>

definition attr_f :: "'a Node \<Rightarrow> string \<Rightarrow> error + 'a" where
  \<comment> \<open>\<^verbatim>\<open>n->f(name)\<close>\<close>
  "attr_f n name =
     (case map_of (n_attrs n) name of Some (FloatAttr x) \<Rightarrow> Inr x | _ \<Rightarrow> Inl AttributeError)"

definition attr_t :: "'a Node \<Rightarrow> string \<Rightarrow> error + tensor_ref" where
  \<comment> \<open>\<^verbatim>\<open>n->t(name)\<close>\<close>
  "attr_t n name =
     (case map_of (n_attrs n) name of Some (TensorAttr r) \<Rightarrow> Inr r | _ \<Rightarrow> Inl AttributeError)"

subsection \<open>Names of values\<close>

definition digit_char :: "nat \<Rightarrow> char" where
  "digit_char d = ''0123456789'' ! d"

fun string_of_nat :: "nat \<Rightarrow> string" where
  "string_of_nat n =
     (if n < 10 then [digit_char n] else string_of_nat (n div 10) @ [digit_char (n mod 10)])"

definition debugName :: "value_ref \<Rightarrow> Value \<Rightarrow> string" where
  \<comment> \<open>the debug name when one was set, the decimal unique id otherwise; the reference of a
      value is its unique id\<close>
  "debugName r v = (case v_name v of Some s \<Rightarrow> s | None \<Rightarrow> string_of_nat r)"

subsection \<open>Primitives of the IR\<close>

text \<open>
  Modelled from the spec: the methods of \<^verbatim>\<open>Graph\<close>, \<^verbatim>\<open>Block\<close>,
  \<^verbatim>\<open>Node\<close> and \<^verbatim>\<open>Value\<close> that the pass calls are declared in the IR
  headers, which are not among the sources. Each is written out from the data model
  (section 3) and the rewriter's steps (section 4.5): a node is created detached with
  fresh output values, a use is the pair of consuming node and input position, adding
  an input appends a use, redirecting uses moves them in order, and destroying a node
  requires its outputs to be unused, gives back the uses its inputs hold, unlinks it and
  frees it together with its outputs.
\<close>

definition create :: "'a heap \<Rightarrow> Symbol \<Rightarrow> nat \<Rightarrow> 'a heap \<times> node_ref" where
  \<comment> \<open>\<^verbatim>\<open>graph->create(kind, num_outputs)\<close>\<close>
  "create h k num_outputs =
     (let n = fresh (nodes h); u = fresh (vals h) in
      (h\<lparr>nodes := alloc (nodes h)
            \<lparr>n_kind = k, n_inputs = [], n_outputs = [u ..< u + num_outputs], n_attrs = [],
             n_blocks = [], n_owning_block = None\<rparr>,
          vals := foldl alloc (vals h)
            (map (\<lambda>i. \<lparr>v_node = n, v_offset = i, v_name = None, v_uses = [],
                           v_type = DynamicTensorType\<rparr>) [0 ..< num_outputs])\<rparr>, n))"

definition addOutput :: "'a heap \<Rightarrow> node_ref \<Rightarrow> error + ('a heap \<times> value_ref)" where
  "addOutput h n =
     ebind (deref (nodes h) n) (\<lambda>nd.
       let u = fresh (vals h) in
       Inr (h\<lparr>nodes := put (nodes h) n (nd\<lparr>n_outputs := n_outputs nd @ [u]\<rparr>),
              vals := alloc (vals h)
                \<lparr>v_node = n, v_offset = length (n_outputs nd), v_name = None, v_uses = [],
                 v_type = DynamicTensorType\<rparr>\<rparr>, u))"

definition Block_addInput :: "'a heap \<Rightarrow> block_ref \<Rightarrow> error + ('a heap \<times> value_ref)" where
  \<comment> \<open>\<^verbatim>\<open>b->addInput()\<close>: a new output of the block's param node\<close>
  "Block_addInput h b = ebind (deref (blocks h) b) (\<lambda>blk. addOutput h (b_param blk))"

definition Graph_addInput :: "'a heap \<Rightarrow> error + ('a heap \<times> value_ref)" where
  \<comment> \<open>\<^verbatim>\<open>graph->addInput()\<close>: an input of the root block\<close>
  "Graph_addInput h = Block_addInput h (root_block h)"

definition copyMetadata :: "'a heap \<Rightarrow> value_ref \<Rightarrow> value_ref \<Rightarrow> error + 'a heap" where
  \<comment> \<open>\<^verbatim>\<open>to->copyMetadata(from)\<close>: the type and shape information\<close>
  "copyMetadata h to from =
     ebind (deref (vals h) from) (\<lambda>fv.
     ebind (deref (vals h) to) (\<lambda>tv.
       Inr (h\<lparr>vals := put (vals h) to (tv\<lparr>v_type := v_type fv\<rparr>)\<rparr>)))"

definition inferTypeFrom :: "'a heap \<Rightarrow> value_ref \<Rightarrow> tensor_ref \<Rightarrow> error + 'a heap" where
  "inferTypeFrom h v r =
     ebind (deref (tensors h) r) (\<lambda>t.
     ebind (deref (vals h) v) (\<lambda>vv.
       Inr (h\<lparr>vals := put (vals h) v (vv\<lparr>v_type := TensorType (t_dtype t) (t_sizes t)\<rparr>)\<rparr>)))"

definition copyAttributes :: "'a heap \<Rightarrow> node_ref \<Rightarrow> node_ref \<Rightarrow> error + 'a heap" where
  "copyAttributes h n rhs =
     ebind (deref (nodes h) rhs) (\<lambda>rn.
     ebind (deref (nodes h) n) (\<lambda>nd.
       Inr (h\<lparr>nodes := put (nodes h) n (nd\<lparr>n_attrs := n_attrs rn\<rparr>)\<rparr>)))"

definition insert_before :: "node_ref \<Rightarrow> node_ref \<Rightarrow> node_ref list \<Rightarrow> node_ref list" where
  "insert_before n p xs = takeWhile (\<lambda>x. x \<noteq> p) xs @ n # dropWhile (\<lambda>x. x \<noteq> p) xs"

definition insertBefore :: "'a heap \<Rightarrow> node_ref \<Rightarrow> node_ref \<Rightarrow> error + 'a heap" where
  \<comment> \<open>\<^verbatim>\<open>n->insertBefore(p)\<close>: \<open>p\<close> is linked in a block, \<open>n\<close> is not\<close>
  "insertBefore h n p =
     ebind (deref (nodes h) p) (\<lambda>pn.
     ebind (deref (nodes h) n) (\<lambda>nd.
       case n_owning_block pn of
         None \<Rightarrow> Inl AssertionFailure
       | Some b \<Rightarrow>
           ebind (deref (blocks h) b) (\<lambda>blk.
             if p \<notin> set (b_nodes blk) \<or> n_owning_block nd \<noteq> None then Inl AssertionFailure
             else Inr (h\<lparr>nodes := put (nodes h) n (nd\<lparr>n_owning_block := Some b\<rparr>),
                         blocks := put (blocks h) b (blk\<lparr>b_nodes := insert_before n p (b_nodes blk)\<rparr>)\<rparr>))))"

definition addInput :: "'a heap \<Rightarrow> node_ref \<Rightarrow> value_ref \<Rightarrow> error + 'a heap" where
  \<comment> \<open>\<^verbatim>\<open>n->addInput(v)\<close>: the new use is recorded at the end of the use list of \<open>v\<close>\<close>
  "addInput h n v =
     ebind (deref (nodes h) n) (\<lambda>nd.
     ebind (deref (vals h) v) (\<lambda>vv.
       Inr (h\<lparr>vals := put (vals h) v (vv\<lparr>v_uses := v_uses vv @ [(n, length (n_inputs nd))]\<rparr>),
              nodes := put (nodes h) n (nd\<lparr>n_inputs := n_inputs nd @ [v]\<rparr>)\<rparr>)))"

definition replaceFirstUseWith :: "'a heap \<Rightarrow> value_ref \<Rightarrow> value_ref \<Rightarrow> error + 'a heap" where
  "replaceFirstUseWith h old new =
     ebind (deref (vals h) old) (\<lambda>ov.
     ebind (deref (vals h) new) (\<lambda>nv.
     ebind (at_index (v_uses ov) 0) (\<lambda>u.
     ebind (deref (nodes h) (fst u)) (\<lambda>un.
       Inr (h\<lparr>nodes := put (nodes h) (fst u) (un\<lparr>n_inputs := (n_inputs un)[snd u := new]\<rparr>),
              vals := put (put (vals h) new (nv\<lparr>v_uses := v_uses nv @ [u]\<rparr>))
                        old (ov\<lparr>v_uses := tl (v_uses ov)\<rparr>)\<rparr>)))))"

fun replaceUses :: "nat \<Rightarrow> 'a heap \<Rightarrow> value_ref \<Rightarrow> value_ref \<Rightarrow> error + 'a heap" where
  "replaceUses 0 h old new = Inr h"
| "replaceUses (Suc k) h old new =
     ebind (replaceFirstUseWith h old new) (\<lambda>h'. replaceUses k h' old new)"

definition replaceAllUsesWith :: "'a heap \<Rightarrow> value_ref \<Rightarrow> value_ref \<Rightarrow> error + 'a heap" where
  \<comment> \<open>\<^verbatim>\<open>old->replaceAllUsesWith(new)\<close>: one \<^verbatim>\<open>replaceFirstUseWith\<close> for every use of
      \<open>old\<close>; the pass calls it with a value it has just created, so \<open>new\<close> is not \<open>old\<close>\<close>
  "replaceAllUsesWith h old new =
     ebind (deref (vals h) old) (\<lambda>ov. replaceUses (length (v_uses ov)) h old new)"

fun dropInputs :: "'a heap \<Rightarrow> node_ref \<Rightarrow> value_ref list \<Rightarrow> nat \<Rightarrow> error + 'a heap" where
  "dropInputs h n [] i = Inr h"
| "dropInputs h n (v # vs) i =
     ebind (deref (vals h) v) (\<lambda>vv.
       if (n, i) \<notin> set (v_uses vv) then Inl AssertionFailure
       else dropInputs (h\<lparr>vals := put (vals h) v (vv\<lparr>v_uses := remove1 (n, i) (v_uses vv)\<rparr>)\<rparr>) n vs (Suc i))"

definition unused :: "'a heap \<Rightarrow> value_ref \<Rightarrow> bool" where
  "unused h v = (case lookup (vals h) v of None \<Rightarrow> False | Some vv \<Rightarrow> v_uses vv = [])"

definition removeFromList :: "'a heap \<Rightarrow> node_ref \<Rightarrow> block_ref option \<Rightarrow> 'a heap" where
  "removeFromList h n ob =
     (case ob of
        None \<Rightarrow> h
      | Some b \<Rightarrow>
          (case lookup (blocks h) b of
             None \<Rightarrow> h
           | Some blk \<Rightarrow> h\<lparr>blocks := put (blocks h) b (blk\<lparr>b_nodes := removeAll n (b_nodes blk)\<rparr>)\<rparr>))"

definition destroy :: "'a heap \<Rightarrow> node_ref \<Rightarrow> error + 'a heap" where
  \<comment> \<open>\<^verbatim>\<open>n->destroy()\<close>. A node with sub-blocks is outside the model: the pass destroys only
      \<open>Conv\<close> and \<open>BatchNormalization\<close> nodes, which have none.\<close>
  "destroy h n =
     ebind (deref (nodes h) n) (\<lambda>nd.
       if \<not> list_all (unused h) (n_outputs nd) then Inl AssertionFailure
       else if n_blocks nd \<noteq> [] then Inl NestedBlocksOnDestroy
       else
         ebind (dropInputs (h\<lparr>vals := free_list (vals h) (n_outputs nd)\<rparr>) n (n_inputs nd) 0) (\<lambda>h1.
           let h2 = removeFromList h1 n (n_owning_block nd) in
           Inr (h2\<lparr>nodes := free (nodes h2) n\<rparr>)))"

section \<open>The pass\<close>

subsection \<open>getValues\<close>

text \<open>
  A tensor handle that is copied out of the table or out of an attribute shares the
  tensor object, so the object is live: \<open>tensor_handle\<close> is the copy of a handle.
\<close>

definition tensor_handle :: "'a heap \<Rightarrow> tensor_ref \<Rightarrow> error + tensor_ref" where
  "tensor_handle h r = ebind (deref (tensors h) r) (\<lambda>_. Inr r)"

definition resolve_input ::
  "'a heap \<Rightarrow> ValueToParamPairMap \<Rightarrow> value_ref \<Rightarrow> error + tensor_ref option" where
  \<comment> \<open>the body of the loop of \<^verbatim>\<open>getValues\<close> for the input \<open>val\<close>: the tensor that is pushed,
      or \<open>None\<close> for a \<^verbatim>\<open>continue\<close>\<close>
  "resolve_input h valsToParamsMap val =
     ebind (deref (vals h) val) (\<lambda>v.
     ebind (deref (nodes h) (v_node v)) (\<lambda>def_node.
       if n_kind def_node = prim_Param then
         (case valsToParamsMap val of
            None \<Rightarrow> Inr None
          | Some (name, iv) \<Rightarrow>
              ebind (toTensor iv) (\<lambda>r.
              ebind (tensor_handle h r) (\<lambda>t. Inr (Some t))))
       else if n_kind def_node = onnx_Constant then
         ebind (attr_t def_node ''value'') (\<lambda>r.
         ebind (tensor_handle h r) (\<lambda>t. Inr (Some t)))
       else Inr None))"

fun getValues_loop ::
  "'a heap \<Rightarrow> ValueToParamPairMap \<Rightarrow> value_ref list \<Rightarrow> error + tensor_ref list" where
  "getValues_loop h valsToParamsMap [] = Inr []"
| "getValues_loop h valsToParamsMap (val # rest) =
     ebind (resolve_input h valsToParamsMap val) (\<lambda>r.
     ebind (getValues_loop h valsToParamsMap rest) (\<lambda>ts.
       Inr (case r of None \<Rightarrow> ts | Some t \<Rightarrow> t # ts)))"

definition getValues ::
  "'a heap \<Rightarrow> node_ref \<Rightarrow> ValueToParamPairMap \<Rightarrow> error + tensor_ref list" where
  "getValues h node valsToParamsMap =
     ebind (deref (nodes h) node) (\<lambda>n. getValues_loop h valsToParamsMap (n_inputs n))"

subsection \<open>fuseConvBatchNorm: the body of the loop for one Conv node\<close>

text \<open>
  Lines 78 to 116: the clones, the numeric and shape checks, and the folding arithmetic.
  The result \<open>None\<close> is the \<^verbatim>\<open>continue\<close> of line 94; otherwise the heap with
  the new tensors and the handles \<open>convW\<close> and \<open>convB\<close>. \<open>has_bias\<close> is the test
  \<^verbatim>\<open>oldConv->inputs().size() == 3\<close>.
\<close>

definition fold_checks ::
  "'a TensorImpl \<Rightarrow> 'a TensorImpl \<Rightarrow> 'a TensorImpl \<Rightarrow> 'a TensorImpl \<Rightarrow> 'a TensorImpl \<Rightarrow> bool" where
  \<comment> \<open>the condition of the \<^verbatim>\<open>if\<close> of lines 86 to 93: true when the candidate is skipped\<close>
  "fold_checks bnScale bnB bnMean bnVar convW =
     (\<not> is_floating_point bnScale \<or> \<not> is_floating_point bnB \<or>
      \<not> is_floating_point bnMean \<or> \<not> is_floating_point bnVar \<or>
      \<not> is_floating_point convW \<or> dim bnScale \<noteq> 1 \<or> dim bnB \<noteq> 1 \<or>
      dim bnMean \<noteq> 1 \<or> dim bnVar \<noteq> 1 \<or>
      \<not> (size0 bnScale = size0 bnB) \<or>
      \<not> (size0 bnB = size0 bnMean) \<or>
      \<not> (size0 bnMean = size0 bnVar) \<or> \<not> (dim convW > 2) \<or>
      \<not> (size0 convW = size0 bnScale))"

definition scale_rows :: "'a scalar_ops \<Rightarrow> 'a TensorImpl \<Rightarrow> 'a TensorImpl \<Rightarrow> 'a TensorImpl" where
  \<comment> \<open>the loop of lines 102 to 104\<close>
  "scale_rows ops convW bnScale =
     foldl (\<lambda>w i. scale_row ops w i (t_data bnScale ! i)) convW [0 ..< size0 convW]"

definition fold_conv_bn ::
  "'a scalar_ops \<Rightarrow> 'a heap \<Rightarrow> tensor_ref list \<Rightarrow> tensor_ref list \<Rightarrow> 'a \<Rightarrow> bool \<Rightarrow>
   error + ('a heap \<times> tensor_ref \<times> tensor_ref) option" where
  "fold_conv_bn ops h0 convInputVals bnInputVals epsilon has_bias =
     ebind (clone h0 (bnInputVals ! 0)) (\<lambda>(h1, bnScale).
     ebind (clone h1 (bnInputVals ! 1)) (\<lambda>(h2, bnB).
     ebind (clone h2 (bnInputVals ! 2)) (\<lambda>(h3, bnMean).
     ebind (clone h3 (bnInputVals ! 3)) (\<lambda>(h4, bnVar).
     ebind (clone h4 (convInputVals ! 0)) (\<lambda>(h5, convW).
     ebind (deref (tensors h5) bnScale) (\<lambda>tScale.
     ebind (deref (tensors h5) bnB) (\<lambda>tB.
     ebind (deref (tensors h5) bnMean) (\<lambda>tMean.
     ebind (deref (tensors h5) bnVar) (\<lambda>tVar.
     ebind (deref (tensors h5) convW) (\<lambda>tW.
       if fold_checks tScale tB tMean tVar tW then Inr None
       else
         ebind (broadcast_vec ops (s_div ops) tScale (sqrt_tensor ops (add_scalar ops tVar epsilon)))
           (\<lambda>tScale'.
         let h6 = h5\<lparr>tensors := put (tensors h5) convW (scale_rows ops tW tScale')\<rparr> in
         if has_bias then
           ebind (clone h6 (convInputVals ! 1)) (\<lambda>(h7, convB).
           ebind (deref (tensors h7) convB) (\<lambda>tConvB.
           ebind (broadcast_vec ops (s_sub ops) tConvB tMean) (\<lambda>t1.
           ebind (broadcast_vec ops (s_mul ops) t1 tScale') (\<lambda>t2.
           ebind (broadcast_vec ops (s_add ops) t2 tB) (\<lambda>t3.
             case new_tensor h7 t3 of (h8, convB') \<Rightarrow> Inr (Some (h8, convW, convB')))))))
         else
           ebind (broadcast_vec ops (s_mul ops) tMean tScale') (\<lambda>tMean'.
           ebind (broadcast_vec ops (s_sub ops) tB tMean') (\<lambda>tB'.
             case new_tensor h6 tB' of (h7, convB) \<Rightarrow> Inr (Some (h7, convW, convB)))))))))))))))"

text \<open>Lines 118 to 138: the surgery on the graph, up to the destruction of the
  normalization node.\<close>

definition map_insert :: "('k \<rightharpoonup> 'v) \<Rightarrow> 'k \<Rightarrow> 'v \<Rightarrow> ('k \<rightharpoonup> 'v)" where
  \<comment> \<open>\<^verbatim>\<open>std::map::insert\<close>: an existing key keeps its entry\<close>
  "map_insert m k v = (case m k of None \<Rightarrow> m(k \<mapsto> v) | Some _ \<Rightarrow> m)"

definition rewrite_conv_bn ::
  "block_ref \<Rightarrow> node_ref \<Rightarrow> node_ref \<Rightarrow> tensor_ref \<Rightarrow> tensor_ref \<Rightarrow> 'a heap \<Rightarrow> ValueToParamPairMap \<Rightarrow>
   error + ('a heap \<times> ValueToParamPairMap)" where
  "rewrite_conv_bn b oldConv bnNode convW convB h0 m0 =
     ebind (deref (nodes h0) oldConv) (\<lambda>cn.
     ebind (deref (nodes h0) bnNode) (\<lambda>bn.
     case create h0 onnx_Conv 1 of (h1, newConv) \<Rightarrow>
     ebind (deref (nodes h1) newConv) (\<lambda>nn.
     ebind (at_index (n_outputs nn) 0) (\<lambda>newOut.
     ebind (at_index (n_outputs bn) 0) (\<lambda>bnOut.
     ebind (copyMetadata h1 newOut bnOut) (\<lambda>h2.
     ebind (copyAttributes h2 newConv oldConv) (\<lambda>h3.
     ebind (insertBefore h3 newConv bnNode) (\<lambda>h4.
     ebind (at_index (n_inputs cn) 0) (\<lambda>in0.
     ebind (addInput h4 newConv in0) (\<lambda>h5.
     ebind (Graph_addInput h5) (\<lambda>(h6, newConvW).
     ebind (deref (vals h6) newConvW) (\<lambda>vw.
     let m1 = map_insert m0 newConvW (debugName newConvW vw, TensorIValue convW) in
     ebind (inferTypeFrom h6 newConvW convW) (\<lambda>h7.
     ebind (addInput h7 newConv newConvW) (\<lambda>h8.
     ebind (Block_addInput h8 b) (\<lambda>(h9, newConvB).
     ebind (deref (vals h9) newConvB) (\<lambda>vb.
     let m2 = map_insert m1 newConvB (debugName newConvB vb, TensorIValue convB) in
     ebind (inferTypeFrom h9 newConvB convB) (\<lambda>h10.
     ebind (addInput h10 newConv newConvB) (\<lambda>h11.
     ebind (replaceAllUsesWith h11 bnOut newOut) (\<lambda>h12.
     ebind (destroy h12 bnNode) (\<lambda>h13.
       Inr (h13, m2)))))))))))))))))))))"

text \<open>
  Lines 118 to 135 alone, that is \<open>rewrite_conv_bn\<close> without its last two calls: the
  new node is created, placed and wired, and the two new inputs are bound in the table;
  the uses of the output of the normalization node are not yet redirected (line 137) and
  the normalization node is not yet destroyed (line 138).
\<close>

definition wire_new_conv ::
  "block_ref \<Rightarrow> node_ref \<Rightarrow> node_ref \<Rightarrow> tensor_ref \<Rightarrow> tensor_ref \<Rightarrow> 'a heap \<Rightarrow> ValueToParamPairMap \<Rightarrow>
   error + ('a heap \<times> ValueToParamPairMap)" where
  "wire_new_conv b oldConv bnNode convW convB h0 m0 =
     ebind (deref (nodes h0) oldConv) (\<lambda>cn.
     ebind (deref (nodes h0) bnNode) (\<lambda>bn.
     case create h0 onnx_Conv 1 of (h1, newConv) \<Rightarrow>
     ebind (deref (nodes h1) newConv) (\<lambda>nn.
     ebind (at_index (n_outputs nn) 0) (\<lambda>newOut.
     ebind (at_index (n_outputs bn) 0) (\<lambda>bnOut.
     ebind (copyMetadata h1 newOut bnOut) (\<lambda>h2.
     ebind (copyAttributes h2 newConv oldConv) (\<lambda>h3.
     ebind (insertBefore h3 newConv bnNode) (\<lambda>h4.
     ebind (at_index (n_inputs cn) 0) (\<lambda>in0.
     ebind (addInput h4 newConv in0) (\<lambda>h5.
     ebind (Graph_addInput h5) (\<lambda>(h6, newConvW).
     ebind (deref (vals h6) newConvW) (\<lambda>vw.
     let m1 = map_insert m0 newConvW (debugName newConvW vw, TensorIValue convW) in
     ebind (inferTypeFrom h6 newConvW convW) (\<lambda>h7.
     ebind (addInput h7 newConv newConvW) (\<lambda>h8.
     ebind (Block_addInput h8 b) (\<lambda>(h9, newConvB).
     ebind (deref (vals h9) newConvB) (\<lambda>vb.
     let m2 = map_insert m1 newConvB (debugName newConvB vb, TensorIValue convB) in
     ebind (inferTypeFrom h9 newConvB convB) (\<lambda>h10.
     ebind (addInput h10 newConv newConvB) (\<lambda>h11.
       Inr (h11, m2)))))))))))))))))))"

text \<open>
  Lines 50 to 138 for the node \<open>oldConv\<close>, whose kind the walker has found to be
  \<open>Conv\<close>. \<open>Inr None\<close> is a \<^verbatim>\<open>continue\<close>: nothing has been changed.
  \<open>Inr (Some (h', m'))\<close> is the state before \<^verbatim>\<open>it.destroyCurrent()\<close>.
\<close>

definition fuseConvBatchNorm_body ::
  "'a scalar_ops \<Rightarrow> block_ref \<Rightarrow> node_ref \<Rightarrow> 'a heap \<Rightarrow> ValueToParamPairMap \<Rightarrow>
   error + ('a heap \<times> ValueToParamPairMap) option" where
  "fuseConvBatchNorm_body ops b oldConv h valsToParamsMap =
     ebind (deref (nodes h) oldConv) (\<lambda>cn.
     ebind (at_index (n_outputs cn) 0) (\<lambda>convOut.
     ebind (deref (vals h) convOut) (\<lambda>cv.
       if length (v_uses cv) \<noteq> 1 then Inr None
       else
         let bnNode = fst (hd (v_uses cv)) in
         ebind (deref (nodes h) bnNode) (\<lambda>bn.
           if n_kind bn \<noteq> onnx_BatchNormalization then Inr None
           else if length (n_outputs cn) \<noteq> length (n_outputs bn) then Inr None
           else
             ebind (attr_f bn ''epsilon'') (\<lambda>epsilon.
             ebind (getValues h oldConv valsToParamsMap) (\<lambda>convInputVals.
               if length convInputVals < 1 \<or>
                  (length (n_inputs cn) = 3 \<and> length convInputVals \<noteq> 2) then Inr None
               else
                 ebind (getValues h bnNode valsToParamsMap) (\<lambda>bnInputVals.
                   if length bnInputVals \<noteq> 4 then Inr None
                   else
                     ebind (fold_conv_bn ops h convInputVals bnInputVals epsilon
                              (length (n_inputs cn) = 3)) (\<lambda>folded.
                       case folded of
                         None \<Rightarrow> Inr None
                       | Some (h', convW, convB) \<Rightarrow>
                           ebind (rewrite_conv_bn b oldConv bnNode convW convB h' valsToParamsMap)
                             (\<lambda>r. Inr (Some r))))))))))"

subsection \<open>fuseConvBatchNorm: the walk over a block\<close>

text \<open>
  The iterator of the loop is a node of the block's list, or \<open>None\<close> for the end of the
  list (the block's return node, which closes the circular list: its successor is the
  first node). \<^verbatim>\<open>it.destroyCurrent()\<close> steps the iterator back to the predecessor
  and destroys the node; the \<^verbatim>\<open>++it\<close> of the loop then moves to the successor of
  that predecessor in the list as it is by then.
\<close>

definition list_next :: "node_ref list \<Rightarrow> node_ref option \<Rightarrow> error + node_ref option" where
  "list_next xs cur =
     (case cur of
        None \<Rightarrow> Inr (case xs of [] \<Rightarrow> None | x # _ \<Rightarrow> Some x)
      | Some n \<Rightarrow>
          (case dropWhile (\<lambda>x. x \<noteq> n) xs of
             [] \<Rightarrow> Inl DanglingPointer
           | _ # rest \<Rightarrow> Inr (case rest of [] \<Rightarrow> None | y # _ \<Rightarrow> Some y)))"

definition list_prev :: "node_ref list \<Rightarrow> node_ref \<Rightarrow> error + node_ref option" where
  "list_prev xs n =
     (if n \<notin> set xs then Inl DanglingPointer
      else Inr (case takeWhile (\<lambda>x. x \<noteq> n) xs of [] \<Rightarrow> None | ys \<Rightarrow> Some (last ys)))"

definition it_next :: "'a heap \<Rightarrow> block_ref \<Rightarrow> node_ref option \<Rightarrow> error + node_ref option" where
  "it_next h b cur = ebind (deref (blocks h) b) (\<lambda>blk. list_next (b_nodes blk) cur)"

definition it_prev :: "'a heap \<Rightarrow> block_ref \<Rightarrow> node_ref \<Rightarrow> error + node_ref option" where
  "it_prev h b n = ebind (deref (blocks h) b) (\<lambda>blk. list_prev (b_nodes blk) n)"

definition destroyCurrent ::
  "'a heap \<Rightarrow> block_ref \<Rightarrow> node_ref \<Rightarrow> error + ('a heap \<times> node_ref option)" where
  "destroyCurrent h b n =
     ebind (it_prev h b n) (\<lambda>cur.
     ebind (destroy h n) (\<lambda>h'. Inr (h', cur)))"

type_synonym 'a pass_state = "'a heap \<times> ValueToParamPairMap"

definition rbind ::
  "(error + 'x) option \<Rightarrow> ('x \<Rightarrow> (error + 'y) option) \<Rightarrow> (error + 'y) option" where
  "rbind r k = (case r of None \<Rightarrow> None | Some (Inl e) \<Rightarrow> Some (Inl e) | Some (Inr x) \<Rightarrow> k x)"

definition lift_err :: "error + 'x \<Rightarrow> (error + 'x) option" where
  "lift_err r = Some r"

text \<open>
  The walk. A heap whose blocks nest in a cycle would make the recursion of the source
  run forever, so the model counts fuel: every entry into a block and every step of the
  loop takes one unit, and \<open>None\<close> says that the fuel ran out.
\<close>

fun fuseConvBatchNorm ::
      "nat \<Rightarrow> 'a scalar_ops \<Rightarrow> block_ref \<Rightarrow> 'a pass_state \<Rightarrow> (error + 'a pass_state) option"
  and fuse_loop ::
      "nat \<Rightarrow> 'a scalar_ops \<Rightarrow> block_ref \<Rightarrow> node_ref option \<Rightarrow> 'a pass_state \<Rightarrow> (error + 'a pass_state) option"
  and fuse_child_blocks ::
      "nat \<Rightarrow> 'a scalar_ops \<Rightarrow> block_ref list \<Rightarrow> 'a pass_state \<Rightarrow> (error + 'a pass_state) option"
where
  "fuseConvBatchNorm 0 ops b s = None"
| "fuseConvBatchNorm (Suc k) ops b s =
     rbind (lift_err (it_next (fst s) b None)) (\<lambda>it. fuse_loop k ops b it s)"
| "fuse_loop 0 ops b it s = None"
| "fuse_loop (Suc k) ops b None s = Some (Inr s)"
| "fuse_loop (Suc k) ops b (Some n) s =
     rbind (lift_err (deref (nodes (fst s)) n)) (\<lambda>nd.
     rbind (fuse_child_blocks k ops (n_blocks nd) s) (\<lambda>s1.
     rbind (lift_err (deref (nodes (fst s1)) n)) (\<lambda>nd1.
       if n_kind nd1 = onnx_Conv then
         rbind (lift_err (fuseConvBatchNorm_body ops b n (fst s1) (snd s1))) (\<lambda>r.
           case r of
             None \<Rightarrow> rbind (lift_err (it_next (fst s1) b (Some n))) (\<lambda>it. fuse_loop k ops b it s1)
           | Some (h2, m2) \<Rightarrow>
               rbind (lift_err (destroyCurrent h2 b n)) (\<lambda>(h3, cur).
               rbind (lift_err (it_next h3 b cur)) (\<lambda>it. fuse_loop k ops b it (h3, m2))))
       else rbind (lift_err (it_next (fst s1) b (Some n))) (\<lambda>it. fuse_loop k ops b it s1))))"
| "fuse_child_blocks k ops [] s = Some (Inr s)"
| "fuse_child_blocks k ops (c # cs) s =
     rbind (fuseConvBatchNorm k ops c s) (\<lambda>s'. fuse_child_blocks k ops cs s')"

subsection \<open>EvalPeepholeONNX\<close>

text \<open>
  Modelled from the spec: the two conversions between the dictionary of named
  parameters (section 6, the table \<^emph>\<open>mapping names to dense tensors\<close> that the pass
  receives and gives back) and the table keyed by graph inputs (section 3, the
  \<^emph>\<open>mapping from a graph-input Value to (symbolic name, concrete dense tensor)\<close>),
  \<^verbatim>\<open>buildValueToParamsMap\<close> and \<^verbatim>\<open>buildParamsMapFromValueToParamsMap\<close>, are defined
  in a helper file that is not among the sources. The first gives every input of the
  block whose debug name is a name of the dictionary the entry of that name. The second
  clears the dictionary and inserts the pair (name, value) of every entry of the table,
  in the order of the keys; as with every \<^verbatim>\<open>insert\<close>, the first pair of a name stays.
  The keys of the table are values of the graph, so the entries are enumerated over the
  value store.
\<close>

definition block_inputs :: "'a heap \<Rightarrow> block_ref \<Rightarrow> value_ref list" where
  \<comment> \<open>\<^verbatim>\<open>b->inputs()\<close>: the outputs of the param node of the block\<close>
  "block_inputs h b =
     (case lookup (blocks h) b of
        None \<Rightarrow> []
      | Some blk \<Rightarrow> (case lookup (nodes h) (b_param blk) of None \<Rightarrow> [] | Some pd \<Rightarrow> n_outputs pd))"

definition buildValueToParamsMap :: "'a heap \<Rightarrow> block_ref \<Rightarrow> ParamMap \<Rightarrow> ValueToParamPairMap" where
  "buildValueToParamsMap h b paramsDict =
     foldl (\<lambda>m v. case lookup (vals h) v of
                     None \<Rightarrow> m
                   | Some vv \<Rightarrow>
                       (case paramsDict (debugName v vv) of
                          None \<Rightarrow> m
                        | Some iv \<Rightarrow> map_insert m v (debugName v vv, iv)))
       Map.empty (block_inputs h b)"

definition buildParamsMapFromValueToParamsMap ::
  "'a heap \<Rightarrow> ValueToParamPairMap \<Rightarrow> ParamMap \<Rightarrow> ParamMap" where
  "buildParamsMapFromValueToParamsMap h valsToParamsMap paramsDict =
     foldl (\<lambda>d v. case valsToParamsMap v of
                     None \<Rightarrow> d
                   | Some (name, iv) \<Rightarrow> map_insert d name iv)
       Map.empty [0 ..< fresh (vals h)]"

text \<open>Lines 144 to 158.\<close>

definition EvalPeepholeONNX ::
  "nat \<Rightarrow> 'a scalar_ops \<Rightarrow> block_ref \<Rightarrow> 'a heap \<Rightarrow> ParamMap \<Rightarrow> bool \<Rightarrow>
   (error + 'a heap \<times> ParamMap) option" where
  "EvalPeepholeONNX fuel ops b h paramsDict isAllowedToAdjustGraphInputs =
     (let valsToParamsMap = buildValueToParamsMap h b paramsDict in
      if isAllowedToAdjustGraphInputs then
        rbind (fuseConvBatchNorm fuel ops b (h, valsToParamsMap)) (\<lambda>(h', valsToParamsMap').
          Some (Inr (h', buildParamsMapFromValueToParamsMap h' valsToParamsMap' paramsDict)))
      else Some (Inr (h, buildParamsMapFromValueToParamsMap h valsToParamsMap paramsDict)))"

definition EvalPeepholeONNX_graph ::
  "nat \<Rightarrow> 'a scalar_ops \<Rightarrow> 'a heap \<Rightarrow> ParamMap \<Rightarrow> bool \<Rightarrow> (error + 'a heap \<times> ParamMap) option" where
  \<comment> \<open>the overload on the graph: the pass on its root block (the dump that follows only logs)\<close>
  "EvalPeepholeONNX_graph fuel ops g paramsDict flag =
     EvalPeepholeONNX fuel ops (root_block g) g paramsDict flag"

section \<open>Notions used in the statements\<close>

text \<open>
  A dense tensor holds as many elements as its shape says. \<open>scale_factor\<close> follows the
  words of the specification: component \<open>i\<close> of \<open>bnScale / sqrt (bnVar + epsilon)\<close>.
\<close>

definition tensor_ok :: "'a TensorImpl \<Rightarrow> bool" where
  "tensor_ok t = (length (t_data t) = prod_list (t_sizes t))"

definition tensors_ok :: "'a heap \<Rightarrow> bool" where
  "tensors_ok h = list_all (\<lambda>x. case x of None \<Rightarrow> True | Some t \<Rightarrow> tensor_ok t) (tensors h)"

definition scale_factor :: "'a scalar_ops \<Rightarrow> 'a TensorImpl \<Rightarrow> 'a TensorImpl \<Rightarrow> 'a \<Rightarrow> nat \<Rightarrow> 'a" where
  "scale_factor ops bnScale bnVar epsilon i =
     s_div ops (t_data bnScale ! i) (s_sqrt ops (s_add ops (t_data bnVar ! i) epsilon))"

text \<open>The debug names of the inputs of a block.\<close>

definition input_names :: "'a heap \<Rightarrow> block_ref \<Rightarrow> string list" where
  "input_names h b =
     concat (map (\<lambda>v. case lookup (vals h) v of None \<Rightarrow> [] | Some vv \<Rightarrow> [debugName v vv])
               (block_inputs h b))"

subsection \<open>Use lists\<close>

text \<open>
  \<open>place h n i v\<close>: the node \<open>n\<close> exists and its input number \<open>i\<close> is the value \<open>v\<close>.
  \<open>used h v n i\<close>: the value \<open>v\<close> exists and its use list records the place \<open>(n, i)\<close>.
  The use lists are exact when the two agree everywhere and no use list records a place
  twice; every output of a node is a value that names the node as its producer.
\<close>

definition place :: "'a heap \<Rightarrow> node_ref \<Rightarrow> nat \<Rightarrow> value_ref \<Rightarrow> bool" where
  "place h n i v =
     (case lookup (nodes h) n of
        None \<Rightarrow> False
      | Some nd \<Rightarrow> i < length (n_inputs nd) \<and> n_inputs nd ! i = v)"

definition used :: "'a heap \<Rightarrow> value_ref \<Rightarrow> node_ref \<Rightarrow> nat \<Rightarrow> bool" where
  "used h v n i =
     (case lookup (vals h) v of None \<Rightarrow> False | Some vv \<Rightarrow> (n, i) \<in> set (v_uses vv))"

definition use_lists_exact :: "'a heap \<Rightarrow> bool" where
  "use_lists_exact h \<longleftrightarrow>
     (\<forall>v n i. used h v n i = place h n i v) \<and>
     (\<forall>v vv. lookup (vals h) v = Some vv \<longrightarrow> distinct (v_uses vv))"

definition outputs_defined :: "'a heap \<Rightarrow> bool" where
  "outputs_defined h \<longleftrightarrow>
     (\<forall>n nd v. lookup (nodes h) n = Some nd \<and> v \<in> set (n_outputs nd) \<longrightarrow>
        (\<exists>vv. lookup (vals h) v = Some vv \<and> v_node vv = n))"

definition wf_ir :: "'a heap \<Rightarrow> bool" where
  "wf_ir h \<longleftrightarrow> use_lists_exact h \<and> outputs_defined h"

text \<open>The same, as a check that runs over the two stores.\<close>

definition wf_ir_check :: "'a heap \<Rightarrow> bool" where
  "wf_ir_check h \<longleftrightarrow>
     list_all (\<lambda>n. case lookup (nodes h) n of
                 None \<Rightarrow> True
               | Some nd \<Rightarrow>
                   list_all (\<lambda>i. used h (n_inputs nd ! i) n i) [0 ..< length (n_inputs nd)] \<and>
                   list_all (\<lambda>v. case lookup (vals h) v of
                                    None \<Rightarrow> False
                                  | Some vv \<Rightarrow> v_node vv = n) (n_outputs nd))
       [0 ..< length (nodes h)] \<and>
     list_all (\<lambda>v. case lookup (vals h) v of
                 None \<Rightarrow> True
               | Some vv \<Rightarrow>
                   distinct (v_uses vv) \<and>
                   list_all (\<lambda>u. place h (fst u) (snd u) v) (v_uses vv))
       [0 ..< length (vals h)]"

text \<open>A block whose param node exists and is of kind \<open>Param\<close>.\<close>

definition param_live :: "'a heap \<Rightarrow> block_ref \<Rightarrow> bool" where
  "param_live h b =
     (case lookup (blocks h) b of
        None \<Rightarrow> False
      | Some blk \<Rightarrow>
          (case lookup (nodes h) (b_param blk) of
             None \<Rightarrow> False
           | Some pd \<Rightarrow> n_kind pd = prim_Param))"

subsection \<open>What a primitive changes\<close>

text \<open>
  \<open>uses_exact_from h n k\<close> is the state in the middle of \<^verbatim>\<open>n->removeAllInputs()\<close>: the
  uses of the inputs of \<open>n\<close> below position \<open>k\<close> have been dropped and the inputs are still
  in place. \<open>vals_upto_uses\<close> and \<open>nodes_upto_inputs\<close> relate two stores that differ in
  use lists only, or in input lists of the same length only. \<open>node_kept h h' n\<close>: a node
  that exists in \<open>h\<close> exists in \<open>h'\<close> with its kind, its block and its outputs.
\<close>

definition uses_exact_from :: "'a heap \<Rightarrow> node_ref \<Rightarrow> nat \<Rightarrow> bool" where
  "uses_exact_from h n k \<longleftrightarrow>
     (\<forall>v m i. used h v m i = (place h m i v \<and> (m = n \<longrightarrow> k \<le> i))) \<and>
     (\<forall>v vv. lookup (vals h) v = Some vv \<longrightarrow> distinct (v_uses vv))"

definition vals_upto_uses :: "Value store \<Rightarrow> Value store \<Rightarrow> bool" where
  "vals_upto_uses s s' \<longleftrightarrow>
     (\<forall>x. case lookup s x of
            None \<Rightarrow> lookup s' x = None
          | Some xv \<Rightarrow> (\<exists>us. lookup s' x = Some (xv\<lparr>v_uses := us\<rparr>)))"

definition nodes_upto_inputs :: "'a Node store \<Rightarrow> 'a Node store \<Rightarrow> bool" where
  "nodes_upto_inputs s s' \<longleftrightarrow>
     (\<forall>m. case lookup s m of
            None \<Rightarrow> lookup s' m = None
          | Some nd \<Rightarrow> (\<exists>ins. length ins = length (n_inputs nd) \<and>
                            lookup s' m = Some (nd\<lparr>n_inputs := ins\<rparr>)))"

definition node_kept :: "'a heap \<Rightarrow> 'a heap \<Rightarrow> node_ref \<Rightarrow> bool" where
  "node_kept h h' n =
     (case lookup (nodes h) n of
        None \<Rightarrow> True
      | Some nd \<Rightarrow>
          (case lookup (nodes h') n of
             None \<Rightarrow> False
           | Some nd' \<Rightarrow> n_kind nd' = n_kind nd \<and> n_owning_block nd' = n_owning_block nd \<and>
               set (n_outputs nd) \<subseteq> set (n_outputs nd')))"

text \<open>A value of \<open>h\<close> that is still there in \<open>h'\<close>, as an output of the same node.\<close>

definition val_kept :: "'a heap \<Rightarrow> 'a heap \<Rightarrow> value_ref \<Rightarrow> bool" where
  "val_kept h h' x =
     (case lookup (vals h) x of
        None \<Rightarrow> True
      | Some xv \<Rightarrow>
          (case lookup (vals h') x of
             None \<Rightarrow> False
           | Some xv' \<Rightarrow> v_node xv' = v_node xv))"

section \<open>Example graphs\<close>

text \<open>
  Concrete inputs on which the theorems below are exercised. The scalars are integers
  with truncating division and the identity as square root: the theorems hold for every
  choice of the scalar operations, so any choice serves to run the pass.
\<close>

definition example_ops :: "int scalar_ops" where
  "example_ops =
     \<lparr>s_add = (+), s_sub = (-), s_mul = (*), s_div = (div), s_sqrt = (\<lambda>x. x),
      result_type = (\<lambda>a b. a)\<rparr>"

definition mk_node ::
  "Symbol \<Rightarrow> value_ref list \<Rightarrow> value_ref list \<Rightarrow> (string \<times> int AttributeValue) list \<Rightarrow>
   block_ref list \<Rightarrow> block_ref option \<Rightarrow> int Node" where
  "mk_node k ins outs attrs bs ob =
     \<lparr>n_kind = k, n_inputs = ins, n_outputs = outs, n_attrs = attrs, n_blocks = bs,
      n_owning_block = ob\<rparr>"

definition mk_val :: "node_ref \<Rightarrow> nat \<Rightarrow> (node_ref \<times> nat) list \<Rightarrow> Value" where
  "mk_val n off us =
     \<lparr>v_node = n, v_offset = off, v_name = None, v_uses = us, v_type = DynamicTensorType\<rparr>"

definition mk_tensor :: "nat list \<Rightarrow> int list \<Rightarrow> int TensorImpl" where
  "mk_tensor sz d = \<lparr>t_dtype = Float, t_sizes = sz, t_data = d\<rparr>"

text \<open>
  \<open>conv_bn_graph\<close>: one block with the inputs \<open>x, W, scale, B, mean, var\<close> (values 0 to
  5), a \<open>Conv(x, W)\<close> (node 2, output 6) and a \<open>BatchNormalization\<close> of its output
  (node 3, output 7), which is the output of the graph. \<open>conv_bn_table\<close> binds the five
  parameters to the tensors 0 to 4. The tensors 5 (of an integer dtype) and 6 are bound
  by the variants of the table below.
\<close>

definition conv_bn_graph :: "int heap" where
  "conv_bn_graph =
     \<lparr>nodes =
        [Some (mk_node prim_Param [] [0, 1, 2, 3, 4, 5] [] [] None),
         Some (mk_node prim_Return [7] [] [] [] None),
         Some (mk_node onnx_Conv [0, 1] [6] [(''group'', IntAttr 1)] [] (Some 0)),
         Some (mk_node onnx_BatchNormalization [6, 2, 3, 4, 5] [7] [(''epsilon'', FloatAttr 1)] []
                 (Some 0))],
      vals =
        [Some (mk_val 0 0 [(2, 0)]), Some (mk_val 0 1 [(2, 1)]), Some (mk_val 0 2 [(3, 1)]),
         Some (mk_val 0 3 [(3, 2)]), Some (mk_val 0 4 [(3, 3)]), Some (mk_val 0 5 [(3, 4)]),
         Some (mk_val 2 0 [(3, 0)]), Some (mk_val 3 0 [(1, 0)])],
      blocks = [Some \<lparr>b_param = 0, b_return = 1, b_nodes = [2, 3]\<rparr>],
      root_block = 0,
      tensors =
        [Some (mk_tensor [2, 1, 2] [1, 2, 3, 4]), Some (mk_tensor [2] [6, 8]),
         Some (mk_tensor [2] [10, 20]), Some (mk_tensor [2] [5, 7]), Some (mk_tensor [2] [1, 3]),
         Some \<lparr>t_dtype = Long, t_sizes = [2], t_data = [1, 3]\<rparr>,
         Some (mk_tensor [2, 2, 1] [1, 1, 1, 1])]\<rparr>"

definition conv_bn_table :: ValueToParamPairMap where
  "conv_bn_table =
     map_of [(1, (''W'', TensorIValue 0)), (2, (''scale'', TensorIValue 1)),
             (3, (''B'', TensorIValue 2)), (4, (''mean'', TensorIValue 3)),
             (5, (''var'', TensorIValue 4))]"

text \<open>
  \<open>conv_bn_no_epsilon_graph\<close>: the same graph with a normalization node that carries no
  \<open>epsilon\<close> attribute. \<open>nested_graph\<close>: the convolution and the normalization inside
  the sub-block (block 1) of a control-flow node of the root block; the sub-block has no
  inputs of its own and reads the six graph inputs.
\<close>

definition conv_bn_no_epsilon_graph :: "int heap" where
  "conv_bn_no_epsilon_graph =
     conv_bn_graph\<lparr>nodes := put (nodes conv_bn_graph) 3
        (mk_node onnx_BatchNormalization [6, 2, 3, 4, 5] [7] [] [] (Some 0))\<rparr>"

definition nested_graph :: "int heap" where
  "nested_graph =
     \<lparr>nodes =
        [Some (mk_node prim_Param [] [0, 1, 2, 3, 4, 5] [] [] None),
         Some (mk_node prim_Return [8] [] [] [] None),
         Some (mk_node (other_kind ''onnx::If'') [] [8] [] [1] (Some 0)),
         Some (mk_node prim_Param [] [] [] [] None),
         Some (mk_node prim_Return [7] [] [] [] None),
         Some (mk_node onnx_Conv [0, 1] [6] [(''group'', IntAttr 1)] [] (Some 1)),
         Some (mk_node onnx_BatchNormalization [6, 2, 3, 4, 5] [7] [(''epsilon'', FloatAttr 1)] []
                 (Some 1))],
      vals =
        [Some (mk_val 0 0 [(5, 0)]), Some (mk_val 0 1 [(5, 1)]), Some (mk_val 0 2 [(6, 1)]),
         Some (mk_val 0 3 [(6, 2)]), Some (mk_val 0 4 [(6, 3)]), Some (mk_val 0 5 [(6, 4)]),
         Some (mk_val 5 0 [(6, 0)]), Some (mk_val 6 0 [(4, 0)]), Some (mk_val 2 0 [(1, 0)])],
      blocks = [Some \<lparr>b_param = 0, b_return = 1, b_nodes = [2]\<rparr>,
                Some \<lparr>b_param = 3, b_return = 4, b_nodes = [5, 6]\<rparr>],
      root_block = 0,
      tensors = tensors conv_bn_graph\<rparr>"


text \<open>
  \<open>conv_bias_bn_graph\<close>: the graph \<open>conv_bn_graph\<close> with a third input of the convolution,
  the bias (value 8), bound by \<open>conv_bias_bn_table\<close> to tensor 1.
\<close>

definition conv_bias_bn_graph :: "int heap" where
  "conv_bias_bn_graph =
     conv_bn_graph
       \<lparr>nodes := put (put (nodes conv_bn_graph) 0
                    (mk_node prim_Param [] [0, 1, 2, 3, 4, 5, 8] [] [] None))
                  2 (mk_node onnx_Conv [0, 1, 8] [6] [(''group'', IntAttr 1)] [] (Some 0)),
        vals := alloc (vals conv_bn_graph) (mk_val 0 6 [(2, 2)])\<rparr>"

definition conv_bias_bn_table :: ValueToParamPairMap where
  "conv_bias_bn_table = conv_bn_table(8 \<mapsto> (''bias'', TensorIValue 1))"




text \<open>
  \<open>conv_bn_named_graph\<close>: the first graph with named inputs. \<open>conv_bn_dict\<close>: a
  dictionary with an entry for each parameter of that graph, and one entry, \<open>stale\<close>,
  whose name is not the name of an input.
\<close>

definition conv_bn_named_graph :: "int heap" where
  "conv_bn_named_graph =
     conv_bn_graph
       \<lparr>vals :=
          [Some ((mk_val 0 0 [(2, 0)])\<lparr>v_name := Some ''x''\<rparr>),
           Some ((mk_val 0 1 [(2, 1)])\<lparr>v_name := Some ''W''\<rparr>),
           Some ((mk_val 0 2 [(3, 1)])\<lparr>v_name := Some ''scale''\<rparr>),
           Some ((mk_val 0 3 [(3, 2)])\<lparr>v_name := Some ''B''\<rparr>),
           Some ((mk_val 0 4 [(3, 3)])\<lparr>v_name := Some ''mean''\<rparr>),
           Some ((mk_val 0 5 [(3, 4)])\<lparr>v_name := Some ''var''\<rparr>),
           Some (mk_val 2 0 [(3, 0)]), Some (mk_val 3 0 [(1, 0)])]\<rparr>"

definition conv_bn_dict :: ParamMap where
  "conv_bn_dict =
     map_of [(''W'', TensorIValue 0), (''scale'', TensorIValue 1), (''B'', TensorIValue 2),
             (''mean'', TensorIValue 3), (''var'', TensorIValue 4), (''stale'', TensorIValue 6)]"

section \<open>Basic facts\<close>

lemma ebind_Inr [simp]: "ebind (Inr x) k = k x"
  by (simp add: ebind_def)

lemma ebind_Inl [simp]: "ebind (Inl e) k = Inl e"
  by (simp add: ebind_def)

lemma ebind_eq_Inr: "ebind r k = Inr y \<longleftrightarrow> (\<exists>x. r = Inr x \<and> k x = Inr y)"
  by (cases r) simp_all

lemma rbind_simps [simp]:
  "rbind None k = None"
  "rbind (Some (Inl e)) k = Some (Inl e)"
  "rbind (Some (Inr x)) k = k x"
  by (simp_all add: rbind_def)

lemma rbind_eq_Some_Inr:
  "rbind r k = Some (Inr y) \<longleftrightarrow> (\<exists>x. r = Some (Inr x) \<and> k x = Some (Inr y))"
  by (cases r) (auto simp: rbind_def split: sum.splits)

lemma lift_err_eq [simp]: "lift_err r = Some (Inr x) \<longleftrightarrow> r = Inr x"
  by (simp add: lift_err_def)

lemma deref_eq_Inr: "deref s p = Inr x \<longleftrightarrow> lookup s p = Some x"
  by (simp add: deref_def split: option.splits)

subsection \<open>Stores\<close>

lemma lookup_alloc [simp]: "lookup (alloc s x) p = (if p = fresh s then Some x else lookup s p)"
  by (auto simp: lookup_def alloc_def fresh_def nth_append)

lemma lookup_put [simp]: "lookup (put s p x) q = (if q = p then Some x else lookup s q)"
  by (auto simp: lookup_def put_def nth_append nth_list_update)

lemma lookup_free [simp]: "lookup (free s p) q = (if q = p then None else lookup s q)"
  by (auto simp: lookup_def free_def)

lemma lookup_free_list [simp]:
  "lookup (free_list s ps) q = (if q \<in> set ps then None else lookup s q)"
  unfolding free_list_def by (induction ps arbitrary: s) auto

lemma fresh_alloc [simp]: "fresh (alloc s x) = Suc (fresh s)"
  by (simp add: fresh_def alloc_def)

lemma fresh_put [simp]: "fresh (put s p x) = max (fresh s) (Suc p)"
  by (auto simp: fresh_def put_def)

lemma fresh_free [simp]: "fresh (free s p) = fresh s"
  by (simp add: fresh_def free_def)

lemma fresh_free_list [simp]: "fresh (free_list s ps) = fresh s"
  unfolding free_list_def by (induction ps arbitrary: s) auto

lemma lookup_fresh: "fresh s \<le> p \<Longrightarrow> lookup s p = None"
  by (simp add: lookup_def fresh_def)

lemma lookup_Some_less: "lookup s p = Some x \<Longrightarrow> p < fresh s"
  by (auto simp: lookup_def fresh_def split: if_splits)

lemma lookup_fresh_self [simp]: "lookup s (fresh s) = None"
  by (simp add: lookup_fresh)

subsection \<open>Running the model on a concrete graph\<close>

text \<open>
  The simplifier evaluates the model when it is kept from looking into the continuation
  of a bind, or into the branches of a case, before the scrutinee is a value.
\<close>

lemma ebind_cong_weak: "r = r' \<Longrightarrow> ebind r k = ebind r' k"
  by simp

lemma rbind_cong_weak: "r = r' \<Longrightarrow> rbind r k = rbind r' k"
  by simp

lemmas eval_congs =
  ebind_cong_weak rbind_cong_weak option.case_cong_weak sum.case_cong_weak
  prod.case_cong_weak list.case_cong_weak

lemma fuseConvBatchNorm_numeral:
  "fuseConvBatchNorm (numeral v) ops b s =
     rbind (lift_err (it_next (fst s) b None)) (\<lambda>it. fuse_loop (pred_numeral v) ops b it s)"
  by (simp add: numeral_eq_Suc)

lemmas fuse_loop_numeral =
  fuse_loop.simps(2)[of "pred_numeral v" for v, folded numeral_eq_Suc]
  fuse_loop.simps(3)[of "pred_numeral v" for v, folded numeral_eq_Suc]

lemma list_update_Cons_numeral: "(x # xs)[numeral k := y] = x # xs[pred_numeral k := y]"
  by (simp add: numeral_eq_Suc)

lemma upt_0_numeral: "[0 ..< numeral n] = [0 ..< pred_numeral n] @ [pred_numeral n]"
  by (simp add: numeral_eq_Suc)

lemmas eval_defs =
  digit_char_def upt_0_numeral resolve_input_def tensor_handle_def lookup_def fresh_def alloc_def put_def free_def free_list_def list_update_Cons_numeral
  deref_def at_index_def attr_f_def attr_t_def getValues_def fold_conv_bn_def clone_def
  new_tensor_def fold_checks_def is_floating_point_def dim_def size0_def add_scalar_def
  sqrt_tensor_def broadcast_vec_def scale_rows_def scale_row_def row_len_def
  rewrite_conv_bn_def create_def copyMetadata_def copyAttributes_def insertBefore_def
  insert_before_def addInput_def Graph_addInput_def Block_addInput_def addOutput_def
  map_insert_def debugName_def inferTypeFrom_def replaceAllUsesWith_def
  replaceFirstUseWith_def destroy_def unused_def removeFromList_def toTensor_def
  fuseConvBatchNorm_body_def it_next_def it_prev_def list_next_def list_prev_def
  destroyCurrent_def lift_err_def fuseConvBatchNorm_numeral fuse_loop_numeral Let_def
  example_ops_def mk_node_def mk_val_def mk_tensor_def

lemma conv_bn_graph_runs:
  "\<exists>h' m'. fuseConvBatchNorm 4 example_ops 0 (conv_bn_graph, conv_bn_table) = Some (Inr (h', m'))"
  by (simp add: eval_defs conv_bn_graph_def conv_bn_table_def cong: eval_congs)

lemma conv_bn_body_runs:
  "\<exists>h' m'. fuseConvBatchNorm_body example_ops 0 2 conv_bn_graph conv_bn_table = Inr (Some (h', m'))"
  by (simp add: eval_defs conv_bn_graph_def conv_bn_table_def cong: eval_congs)

subsection \<open>Inversion of the rewrite and of the loop body\<close>

lemma rewrite_conv_bnE:
  assumes "rewrite_conv_bn b oldConv bnNode convW convB h0 m0 = Inr (h', m')"
  obtains cn bn h1 newConv nn newOut bnOut h2 h3 h4 in0 h5 h6 newConvW vw h7 h8 h9 newConvB vb
    h10 h11 h12
  where "lookup (nodes h0) oldConv = Some cn" "lookup (nodes h0) bnNode = Some bn"
    "create h0 onnx_Conv 1 = (h1, newConv)" "lookup (nodes h1) newConv = Some nn"
    "at_index (n_outputs nn) 0 = Inr newOut" "at_index (n_outputs bn) 0 = Inr bnOut"
    "copyMetadata h1 newOut bnOut = Inr h2" "copyAttributes h2 newConv oldConv = Inr h3"
    "insertBefore h3 newConv bnNode = Inr h4" "at_index (n_inputs cn) 0 = Inr in0"
    "addInput h4 newConv in0 = Inr h5" "Graph_addInput h5 = Inr (h6, newConvW)"
    "lookup (vals h6) newConvW = Some vw" "inferTypeFrom h6 newConvW convW = Inr h7"
    "addInput h7 newConv newConvW = Inr h8" "Block_addInput h8 b = Inr (h9, newConvB)"
    "lookup (vals h9) newConvB = Some vb" "inferTypeFrom h9 newConvB convB = Inr h10"
    "addInput h10 newConv newConvB = Inr h11" "replaceAllUsesWith h11 bnOut newOut = Inr h12"
    "destroy h12 bnNode = Inr h'"
    "m' = map_insert (map_insert m0 newConvW (debugName newConvW vw, TensorIValue convW))
            newConvB (debugName newConvB vb, TensorIValue convB)"
proof -
  obtain h1 newConv where c: "create h0 onnx_Conv 1 = (h1, newConv)" by force
  show ?thesis
    using assms that[OF _ _ c] unfolding rewrite_conv_bn_def c
    by (auto simp: ebind_eq_Inr Let_def deref_eq_Inr split: prod.splits)
qed

lemma map_insert_le: "m \<subseteq>\<^sub>m map_insert m k v"
  by (auto simp: map_insert_def map_le_def split: option.splits)

lemma rewrite_conv_bn_table:
  "rewrite_conv_bn b c bn w bi h m = Inr (h', m') \<Longrightarrow> m \<subseteq>\<^sub>m m'"
  by (erule rewrite_conv_bnE) (auto intro: map_le_trans[OF map_insert_le map_insert_le])

lemma body_table:
  "fuseConvBatchNorm_body ops b c h m = Inr (Some (h', m')) \<Longrightarrow> m \<subseteq>\<^sub>m m'"
  unfolding fuseConvBatchNorm_body_def
  by (auto simp: ebind_eq_Inr Let_def split: if_splits option.splits prod.splits
           dest: rewrite_conv_bn_table)

subsection \<open>Inversion of the fold\<close>

lemma clone_Inr:
  "clone h r = Inr (h', r') \<longleftrightarrow>
     (\<exists>t. lookup (tensors h) r = Some t \<and> h' = h\<lparr>tensors := alloc (tensors h) t\<rparr> \<and>
          r' = fresh (tensors h))"
  by (auto simp: clone_def new_tensor_def ebind_eq_Inr deref_eq_Inr)

lemma fold_conv_bnE:
  assumes r: "fold_conv_bn ops h0 cvs bvs eps has_bias = Inr (Some (h', w, bi))"
    and live: "\<And>q. q \<in> set bvs \<union> set cvs \<Longrightarrow> q < fresh (tensors h0)"
    and len: "length bvs = 4" "cvs \<noteq> []" "has_bias \<Longrightarrow> length cvs = 2"
  obtains tScale tB tMean tVar tW tScale' tBias where
    "lookup (tensors h0) (bvs ! 0) = Some tScale"
    "lookup (tensors h0) (bvs ! 1) = Some tB"
    "lookup (tensors h0) (bvs ! 2) = Some tMean"
    "lookup (tensors h0) (bvs ! 3) = Some tVar"
    "lookup (tensors h0) (cvs ! 0) = Some tW"
    "\<not> fold_checks tScale tB tMean tVar tW"
    "broadcast_vec ops (s_div ops) tScale (sqrt_tensor ops (add_scalar ops tVar eps)) = Inr tScale'"
    "lookup (tensors h') w = Some (scale_rows ops tW tScale')"
    "lookup (tensors h') bi = Some tBias"
    "if has_bias
     then \<exists>tConvB t1 t2. lookup (tensors h0) (cvs ! 1) = Some tConvB \<and>
            broadcast_vec ops (s_sub ops) tConvB tMean = Inr t1 \<and>
            broadcast_vec ops (s_mul ops) t1 tScale' = Inr t2 \<and>
            broadcast_vec ops (s_add ops) t2 tB = Inr tBias
     else \<exists>tMean'. broadcast_vec ops (s_mul ops) tMean tScale' = Inr tMean' \<and>
            broadcast_vec ops (s_sub ops) tB tMean' = Inr tBias"
    "fresh (tensors h0) \<le> w" "fresh (tensors h0) \<le> bi" "w \<noteq> bi"
    "\<forall>q. q < fresh (tensors h0) \<longrightarrow> lookup (tensors h') q = lookup (tensors h0) q"
    "nodes h' = nodes h0" "vals h' = vals h0" "blocks h' = blocks h0" "root_block h' = root_block h0"
proof -
  let ?T = "tensors h0"
  let ?f = "fresh ?T"
  have l0: "bvs ! 0 < ?f" "bvs ! 1 < ?f" "bvs ! 2 < ?f" "bvs ! 3 < ?f" "cvs ! 0 < ?f"
    using live len by (auto simp: nth_mem)
  have l1: "has_bias \<Longrightarrow> cvs ! 1 < ?f"
    using live len by (auto simp: nth_mem)
  from r obtain h1 r1 h2 r2 h3 r3 h4 r4 h5 r5 where
    c1: "clone h0 (bvs ! 0) = Inr (h1, r1)" and c2: "clone h1 (bvs ! 1) = Inr (h2, r2)" and
    c3: "clone h2 (bvs ! 2) = Inr (h3, r3)" and c4: "clone h3 (bvs ! 3) = Inr (h4, r4)" and
    c5: "clone h4 (cvs ! 0) = Inr (h5, r5)" and
    rest: "ebind (deref (tensors h5) r1) (\<lambda>tScale.
     ebind (deref (tensors h5) r2) (\<lambda>tB.
     ebind (deref (tensors h5) r3) (\<lambda>tMean.
     ebind (deref (tensors h5) r4) (\<lambda>tVar.
     ebind (deref (tensors h5) r5) (\<lambda>tW.
       if fold_checks tScale tB tMean tVar tW then Inr None
       else
         ebind (broadcast_vec ops (s_div ops) tScale (sqrt_tensor ops (add_scalar ops tVar eps)))
           (\<lambda>tScale'.
         let h6 = h5\<lparr>tensors := put (tensors h5) r5 (scale_rows ops tW tScale')\<rparr> in
         if has_bias then
           ebind (clone h6 (cvs ! 1)) (\<lambda>(h7, convB).
           ebind (deref (tensors h7) convB) (\<lambda>tConvB.
           ebind (broadcast_vec ops (s_sub ops) tConvB tMean) (\<lambda>t1.
           ebind (broadcast_vec ops (s_mul ops) t1 tScale') (\<lambda>t2.
           ebind (broadcast_vec ops (s_add ops) t2 tB) (\<lambda>t3.
             case new_tensor h7 t3 of (h8, convB') \<Rightarrow> Inr (Some (h8, r5, convB')))))))
         else
           ebind (broadcast_vec ops (s_mul ops) tMean tScale') (\<lambda>tMean'.
           ebind (broadcast_vec ops (s_sub ops) tB tMean') (\<lambda>tB'.
             case new_tensor h6 tB' of (h7, convB) \<Rightarrow> Inr (Some (h7, r5, convB))))))))))
       = Inr (Some (h', w, bi))"
    unfolding fold_conv_bn_def by (auto simp: ebind_eq_Inr split: prod.splits)
  from c1 obtain tScale where t1: "lookup ?T (bvs ! 0) = Some tScale"
    and h1: "h1 = h0\<lparr>tensors := alloc ?T tScale\<rparr>" and r1: "r1 = ?f"
    by (auto simp: clone_Inr)
  from c2 l0 obtain tB where t2: "lookup ?T (bvs ! 1) = Some tB"
    and h2: "h2 = h1\<lparr>tensors := alloc (tensors h1) tB\<rparr>" and r2: "r2 = ?f + 1"
    by (auto simp: clone_Inr h1 split: if_splits)
  from c3 l0 obtain tMean where t3: "lookup ?T (bvs ! 2) = Some tMean"
    and h3: "h3 = h2\<lparr>tensors := alloc (tensors h2) tMean\<rparr>" and r3: "r3 = ?f + 2"
    by (auto simp: clone_Inr h1 h2 split: if_splits)
  from c4 l0 obtain tVar where t4: "lookup ?T (bvs ! 3) = Some tVar"
    and h4: "h4 = h3\<lparr>tensors := alloc (tensors h3) tVar\<rparr>" and r4: "r4 = ?f + 3"
    by (auto simp: clone_Inr h1 h2 h3 split: if_splits)
  from c5 l0 obtain tW where t5: "lookup ?T (cvs ! 0) = Some tW"
    and h5: "h5 = h4\<lparr>tensors := alloc (tensors h4) tW\<rparr>" and r5: "r5 = ?f + 4"
    by (auto simp: clone_Inr h1 h2 h3 h4 split: if_splits)
  have T5: "tensors h5 = alloc (alloc (alloc (alloc (alloc ?T tScale) tB) tMean) tVar) tW"
    by (simp add: h1 h2 h3 h4 h5)
  have d: "deref (tensors h5) r1 = Inr tScale" "deref (tensors h5) r2 = Inr tB"
    "deref (tensors h5) r3 = Inr tMean" "deref (tensors h5) r4 = Inr tVar"
    "deref (tensors h5) r5 = Inr tW"
    by (simp_all add: deref_eq_Inr T5 r1 r2 r3 r4 r5)
  from rest have nc: "\<not> fold_checks tScale tB tMean tVar tW"
    by (auto simp: d split: if_splits)
  with rest obtain tScale' where
    sc: "broadcast_vec ops (s_div ops) tScale (sqrt_tensor ops (add_scalar ops tVar eps)) = Inr tScale'"
    and rest2: "(let h6 = h5\<lparr>tensors := put (tensors h5) r5 (scale_rows ops tW tScale')\<rparr> in
         if has_bias then
           ebind (clone h6 (cvs ! 1)) (\<lambda>(h7, convB).
           ebind (deref (tensors h7) convB) (\<lambda>tConvB.
           ebind (broadcast_vec ops (s_sub ops) tConvB tMean) (\<lambda>t1.
           ebind (broadcast_vec ops (s_mul ops) t1 tScale') (\<lambda>t2.
           ebind (broadcast_vec ops (s_add ops) t2 tB) (\<lambda>t3.
             case new_tensor h7 t3 of (h8, convB') \<Rightarrow> Inr (Some (h8, r5, convB')))))))
         else
           ebind (broadcast_vec ops (s_mul ops) tMean tScale') (\<lambda>tMean'.
           ebind (broadcast_vec ops (s_sub ops) tB tMean') (\<lambda>tB'.
             case new_tensor h6 tB' of (h7, convB) \<Rightarrow> Inr (Some (h7, r5, convB)))))
       = Inr (Some (h', w, bi))"
    by (auto simp: d ebind_eq_Inr)
  define h6 where "h6 = h5\<lparr>tensors := put (tensors h5) r5 (scale_rows ops tW tScale')\<rparr>"
  have T6: "tensors h6 = put (tensors h5) r5 (scale_rows ops tW tScale')"
    by (simp add: h6_def)
  have frame6: "\<forall>q. q < ?f \<longrightarrow> lookup (tensors h6) q = lookup ?T q"
    by (simp add: T6 T5 r5)
  have g6: "nodes h6 = nodes h0" "vals h6 = vals h0" "blocks h6 = blocks h0" "root_block h6 = root_block h0"
    by (simp_all add: h6_def h1 h2 h3 h4 h5)
  have f6: "fresh (tensors h6) = ?f + 5"
    by (simp add: T6 T5 r5)
  have w6: "lookup (tensors h6) r5 = Some (scale_rows ops tW tScale')"
    by (simp add: T6)
  show ?thesis
  proof (cases has_bias)
    case True
    with rest2 obtain h7 r7 tConvB u1 u2 u3 where
      c7: "clone h6 (cvs ! 1) = Inr (h7, r7)" and
      d7: "deref (tensors h7) r7 = Inr tConvB" and
      b1: "broadcast_vec ops (s_sub ops) tConvB tMean = Inr u1" and
      b2: "broadcast_vec ops (s_mul ops) u1 tScale' = Inr u2" and
      b3: "broadcast_vec ops (s_add ops) u2 tB = Inr u3" and
      fin: "h' = h7\<lparr>tensors := alloc (tensors h7) u3\<rparr>" "w = r5" "bi = fresh (tensors h7)"
      by (auto simp: h6_def[symmetric] Let_def ebind_eq_Inr new_tensor_def split: prod.splits)
    from c7 obtain tc where tc: "lookup (tensors h6) (cvs ! 1) = Some tc"
      and h7: "h7 = h6\<lparr>tensors := alloc (tensors h6) tc\<rparr>" and r7: "r7 = fresh (tensors h6)"
      by (auto simp: clone_Inr)
    have "tc = tConvB" using d7 by (simp add: deref_eq_Inr h7 r7)
    with tc frame6 l1[OF True] have t6: "lookup ?T (cvs ! 1) = Some tConvB" by simp
    have "if has_bias
     then \<exists>tConvB t1 t2. lookup (tensors h0) (cvs ! 1) = Some tConvB \<and>
            broadcast_vec ops (s_sub ops) tConvB tMean = Inr t1 \<and>
            broadcast_vec ops (s_mul ops) t1 tScale' = Inr t2 \<and>
            broadcast_vec ops (s_add ops) t2 tB = Inr u3
     else \<exists>tMean'. broadcast_vec ops (s_mul ops) tMean tScale' = Inr tMean' \<and>
            broadcast_vec ops (s_sub ops) tB tMean' = Inr u3"
      using True t6 b1 b2 b3 by auto
    moreover have "lookup (tensors h') w = Some (scale_rows ops tW tScale')"
      using w6 by (simp add: fin h7 f6 r5)
    moreover have "lookup (tensors h') bi = Some u3"
      by (simp add: fin)
    moreover have "\<forall>q. q < ?f \<longrightarrow> lookup (tensors h') q = lookup ?T q"
      using frame6 by (simp add: fin h7 f6)
    moreover have "?f \<le> w" "?f \<le> bi" "w \<noteq> bi"
      by (simp_all add: fin h7 f6 r5)
    moreover have "nodes h' = nodes h0" "vals h' = vals h0" "blocks h' = blocks h0"
      "root_block h' = root_block h0"
      using g6 by (simp_all add: fin h7)
    ultimately show ?thesis
      using that[OF t1 t2 t3 t4 t5 nc sc] by blast
  next
    case False
    with rest2 obtain tMean' u3 where
      b1: "broadcast_vec ops (s_mul ops) tMean tScale' = Inr tMean'" and
      b2: "broadcast_vec ops (s_sub ops) tB tMean' = Inr u3" and
      fin: "h' = h6\<lparr>tensors := alloc (tensors h6) u3\<rparr>" "w = r5" "bi = fresh (tensors h6)"
      by (auto simp: h6_def[symmetric] Let_def ebind_eq_Inr new_tensor_def split: prod.splits)
    have "if has_bias
     then \<exists>tConvB t1 t2. lookup (tensors h0) (cvs ! 1) = Some tConvB \<and>
            broadcast_vec ops (s_sub ops) tConvB tMean = Inr t1 \<and>
            broadcast_vec ops (s_mul ops) t1 tScale' = Inr t2 \<and>
            broadcast_vec ops (s_add ops) t2 tB = Inr u3
     else \<exists>tMean'. broadcast_vec ops (s_mul ops) tMean tScale' = Inr tMean' \<and>
            broadcast_vec ops (s_sub ops) tB tMean' = Inr u3"
      using False b1 b2 by auto
    moreover have "lookup (tensors h') w = Some (scale_rows ops tW tScale')"
      using w6 by (simp add: fin f6 r5)
    moreover have "lookup (tensors h') bi = Some u3"
      by (simp add: fin)
    moreover have "\<forall>q. q < ?f \<longrightarrow> lookup (tensors h') q = lookup ?T q"
      using frame6 by (simp add: fin f6)
    moreover have "?f \<le> w" "?f \<le> bi" "w \<noteq> bi"
      by (simp_all add: fin f6 r5)
    moreover have "nodes h' = nodes h0" "vals h' = vals h0" "blocks h' = blocks h0"
      "root_block h' = root_block h0"
      using g6 by (simp_all add: fin)
    ultimately show ?thesis
      using that[OF t1 t2 t3 t4 t5 nc sc] by blast
  qed
qed


lemma resolve_input_live:
  "resolve_input h m v = Inr (Some r) \<Longrightarrow> r < fresh (tensors h)"
  by (auto simp: resolve_input_def ebind_eq_Inr deref_eq_Inr tensor_handle_def
           dest: lookup_Some_less split: if_splits option.splits prod.splits)

lemma getValues_loop_live:
  "getValues_loop h m vs = Inr ts \<Longrightarrow> r \<in> set ts \<Longrightarrow> r < fresh (tensors h)"
proof (induction vs arbitrary: ts)
  case Nil
  then show ?case by simp
next
  case (Cons v vs)
  from Cons.prems obtain x ts' where
    x: "resolve_input h m v = Inr x" and ts': "getValues_loop h m vs = Inr ts'" and
    ts: "ts = (case x of None \<Rightarrow> ts' | Some t \<Rightarrow> t # ts')"
    by (auto simp: ebind_eq_Inr)
  show ?case
  proof (cases x)
    case None
    with ts Cons.prems(2) Cons.IH[OF ts'] show ?thesis by simp
  next
    case (Some t)
    with ts Cons.prems(2) have "r = t \<or> r \<in> set ts'" by auto
    then show ?thesis
      using resolve_input_live[of h m v t] x Some Cons.IH[OF ts'] by auto
  qed
qed

lemma getValues_live:
  "getValues h n m = Inr ts \<Longrightarrow> r \<in> set ts \<Longrightarrow> r < fresh (tensors h)"
  by (auto simp: getValues_def ebind_eq_Inr dest: getValues_loop_live)

lemma resolve_input_Some:
  "resolve_input h m v = Inr (Some r) \<Longrightarrow> \<exists>t. lookup (tensors h) r = Some t"
  by (auto simp: resolve_input_def ebind_eq_Inr deref_eq_Inr tensor_handle_def
           split: if_splits option.splits prod.splits)

lemma getValues_loop_Some:
  "getValues_loop h m vs = Inr ts \<Longrightarrow> r \<in> set ts \<Longrightarrow> \<exists>t. lookup (tensors h) r = Some t"
proof (induction vs arbitrary: ts)
  case Nil
  then show ?case by simp
next
  case (Cons v vs)
  from Cons.prems obtain x ts' where
    x: "resolve_input h m v = Inr x" and ts': "getValues_loop h m vs = Inr ts'" and
    ts: "ts = (case x of None \<Rightarrow> ts' | Some t \<Rightarrow> t # ts')"
    by (auto simp: ebind_eq_Inr)
  show ?case
  proof (cases x)
    case None
    with ts Cons.prems(2) Cons.IH[OF ts'] show ?thesis by simp
  next
    case (Some t)
    with ts Cons.prems(2) have "r = t \<or> r \<in> set ts'" by auto
    then show ?thesis
      using resolve_input_Some[of h m v t] x Some Cons.IH[OF ts'] by auto
  qed
qed

lemma getValues_Some:
  "getValues h n m = Inr ts \<Longrightarrow> r \<in> set ts \<Longrightarrow> \<exists>t. lookup (tensors h) r = Some t"
  by (auto simp: getValues_def ebind_eq_Inr dest: getValues_loop_Some)

lemma bodyE:
  assumes "fuseConvBatchNorm_body ops b c h m = Inr (Some (h', m'))"
  obtains cn cv bnNode off bn eps cvs bvs h1 w bi where
    "lookup (nodes h) c = Some cn" "n_outputs cn \<noteq> []"
    "lookup (vals h) (n_outputs cn ! 0) = Some cv" "v_uses cv = [(bnNode, off)]"
    "lookup (nodes h) bnNode = Some bn" "n_kind bn = onnx_BatchNormalization"
    "length (n_outputs cn) = length (n_outputs bn)"
    "attr_f bn ''epsilon'' = Inr eps"
    "getValues h c m = Inr cvs" "cvs \<noteq> []" "length (n_inputs cn) = 3 \<longrightarrow> length cvs = 2"
    "getValues h bnNode m = Inr bvs" "length bvs = 4"
    "fold_conv_bn ops h cvs bvs eps (length (n_inputs cn) = 3) = Inr (Some (h1, w, bi))"
    "rewrite_conv_bn b c bnNode w bi h1 m = Inr (h', m')"
proof -
  from assms obtain cn cv where
    cn: "lookup (nodes h) c = Some cn" and ne: "n_outputs cn \<noteq> []" and
    cv: "lookup (vals h) (n_outputs cn ! 0) = Some cv" and
    r1: "(if length (v_uses cv) \<noteq> 1 then Inr None
       else
         let bnNode = fst (hd (v_uses cv)) in
         ebind (deref (nodes h) bnNode) (\<lambda>bn.
           if n_kind bn \<noteq> onnx_BatchNormalization then Inr None
           else if length (n_outputs cn) \<noteq> length (n_outputs bn) then Inr None
           else
             ebind (attr_f bn ''epsilon'') (\<lambda>epsilon.
             ebind (getValues h c m) (\<lambda>convInputVals.
               if length convInputVals < 1 \<or>
                  (length (n_inputs cn) = 3 \<and> length convInputVals \<noteq> 2) then Inr None
               else
                 ebind (getValues h bnNode m) (\<lambda>bnInputVals.
                   if length bnInputVals \<noteq> 4 then Inr None
                   else
                     ebind (fold_conv_bn ops h convInputVals bnInputVals epsilon
                              (length (n_inputs cn) = 3)) (\<lambda>folded.
                       case folded of
                         None \<Rightarrow> Inr None
                       | Some (h', convW, convB) \<Rightarrow>
                           ebind (rewrite_conv_bn b c bnNode convW convB h' m)
                             (\<lambda>r. Inr (Some r)))))))) = Inr (Some (h', m'))"
    unfolding fuseConvBatchNorm_body_def
    by (auto simp: ebind_eq_Inr deref_eq_Inr at_index_def split: if_splits)
  from r1 have l1: "length (v_uses cv) = 1" by (auto split: if_splits)
  then obtain bnNode off where u: "v_uses cv = [(bnNode, off)]"
    by (cases "v_uses cv") auto
  from r1 l1 u obtain bn eps cvs bvs folded where
    bn: "lookup (nodes h) bnNode = Some bn" and k: "n_kind bn = onnx_BatchNormalization" and
    ar: "length (n_outputs cn) = length (n_outputs bn)" and
    ep: "attr_f bn ''epsilon'' = Inr eps" and
    gc: "getValues h c m = Inr cvs" and cl: "\<not> (length cvs < 1 \<or> (length (n_inputs cn) = 3 \<and> length cvs \<noteq> 2))" and
    gb: "getValues h bnNode m = Inr bvs" and bl: "length bvs = 4" and
    fo: "fold_conv_bn ops h cvs bvs eps (length (n_inputs cn) = 3) = Inr folded" and
    r2: "(case folded of
             None \<Rightarrow> Inr None
           | Some (h', convW, convB) \<Rightarrow>
               ebind (rewrite_conv_bn b c bnNode convW convB h' m) (\<lambda>r. Inr (Some r))) = Inr (Some (h', m'))"
    by (auto simp: ebind_eq_Inr deref_eq_Inr Let_def split: if_splits)
  from r2 obtain h1 w bi where f: "folded = Some (h1, w, bi)" and
    rw: "rewrite_conv_bn b c bnNode w bi h1 m = Inr (h', m')"
    by (auto simp: ebind_eq_Inr split: option.splits)
  show ?thesis
    using that[OF cn ne cv u bn k ar ep gc _ _ gb bl fo[unfolded f] rw] cl by auto
qed

subsection \<open>The graph primitives leave the tensor store alone\<close>

lemma create_tensors: "create h k n = (h', r) \<Longrightarrow> tensors h' = tensors h"
  by (auto simp: create_def Let_def)

lemma copyMetadata_tensors: "copyMetadata h a b = Inr h' \<Longrightarrow> tensors h' = tensors h"
  by (auto simp: copyMetadata_def ebind_eq_Inr)

lemma copyAttributes_tensors: "copyAttributes h a b = Inr h' \<Longrightarrow> tensors h' = tensors h"
  by (auto simp: copyAttributes_def ebind_eq_Inr)

lemma insertBefore_tensors: "insertBefore h a b = Inr h' \<Longrightarrow> tensors h' = tensors h"
  by (auto simp: insertBefore_def ebind_eq_Inr split: option.splits if_splits)

lemma addInput_tensors: "addInput h a b = Inr h' \<Longrightarrow> tensors h' = tensors h"
  by (auto simp: addInput_def ebind_eq_Inr)

lemma addOutput_tensors: "addOutput h n = Inr (h', v) \<Longrightarrow> tensors h' = tensors h"
  by (auto simp: addOutput_def ebind_eq_Inr Let_def)

lemma Block_addInput_tensors: "Block_addInput h b = Inr (h', v) \<Longrightarrow> tensors h' = tensors h"
  by (auto simp: Block_addInput_def ebind_eq_Inr dest: addOutput_tensors)

lemma Graph_addInput_tensors: "Graph_addInput h = Inr (h', v) \<Longrightarrow> tensors h' = tensors h"
  by (auto simp: Graph_addInput_def dest: Block_addInput_tensors)

lemma inferTypeFrom_tensors: "inferTypeFrom h v r = Inr h' \<Longrightarrow> tensors h' = tensors h"
  by (auto simp: inferTypeFrom_def ebind_eq_Inr)

lemma replaceFirstUseWith_tensors: "replaceFirstUseWith h a b = Inr h' \<Longrightarrow> tensors h' = tensors h"
  by (auto simp: replaceFirstUseWith_def ebind_eq_Inr)

lemma replaceUses_tensors: "replaceUses k h a b = Inr h' \<Longrightarrow> tensors h' = tensors h"
  by (induction k arbitrary: h) (auto simp: ebind_eq_Inr dest: replaceFirstUseWith_tensors)

lemma replaceAllUsesWith_tensors: "replaceAllUsesWith h a b = Inr h' \<Longrightarrow> tensors h' = tensors h"
  by (auto simp: replaceAllUsesWith_def ebind_eq_Inr dest: replaceUses_tensors)

lemma dropInputs_tensors: "dropInputs h n vs i = Inr h' \<Longrightarrow> tensors h' = tensors h"
  by (induction vs arbitrary: h i) (auto simp: ebind_eq_Inr split: if_splits)

lemma removeFromList_tensors: "tensors (removeFromList h n ob) = tensors h"
  by (auto simp: removeFromList_def split: option.splits)

lemma destroy_tensors: "destroy h n = Inr h' \<Longrightarrow> tensors h' = tensors h"
  by (auto simp: destroy_def ebind_eq_Inr Let_def removeFromList_tensors
           dest!: dropInputs_tensors split: if_splits)

lemma destroyCurrent_tensors: "destroyCurrent h b n = Inr (h', cur) \<Longrightarrow> tensors h' = tensors h"
  by (auto simp: destroyCurrent_def ebind_eq_Inr dest: destroy_tensors)

lemma rewrite_conv_bn_tensors:
  assumes "rewrite_conv_bn b c bn w bi h m = Inr (h', m')"
  shows "tensors h' = tensors h"
  using assms
  by (elim rewrite_conv_bnE)
     (simp add: create_tensors copyMetadata_tensors copyAttributes_tensors insertBefore_tensors
        addInput_tensors Graph_addInput_tensors Block_addInput_tensors inferTypeFrom_tensors
        replaceAllUsesWith_tensors destroy_tensors)

lemma body_tensors:
  assumes "fuseConvBatchNorm_body ops b c h m = Inr (Some (h', m'))"
  shows "q < fresh (tensors h) \<Longrightarrow> lookup (tensors h') q = lookup (tensors h) q"
    and "fresh (tensors h) \<le> fresh (tensors h')"
proof -
  from assms obtain cn :: "'a Node" and cvs bvs eps h1 w bi bnNode where
    gc: "getValues h c m = Inr cvs" "cvs \<noteq> []" "length (n_inputs cn) = 3 \<longrightarrow> length cvs = 2" and
    gb: "getValues h bnNode m = Inr bvs" "length bvs = 4" and
    fo: "fold_conv_bn ops h cvs bvs eps (length (n_inputs cn) = 3) = Inr (Some (h1, w, bi))" and
    rw: "rewrite_conv_bn b c bnNode w bi h1 m = Inr (h', m')"
    by (elim bodyE) blast
  have live: "\<And>q. q \<in> set bvs \<union> set cvs \<Longrightarrow> q < fresh (tensors h)"
    using gc(1) gb(1) by (auto dest: getValues_live)
  from fo live gb(2) gc(2,3) obtain
    fr: "\<forall>q. q < fresh (tensors h) \<longrightarrow> lookup (tensors h1) q = lookup (tensors h) q" and
    w: "fresh (tensors h) \<le> w" "lookup (tensors h1) w \<noteq> None"
    by (elim fold_conv_bnE) auto
  have t: "tensors h' = tensors h1" using rw by (rule rewrite_conv_bn_tensors)
  show "q < fresh (tensors h) \<Longrightarrow> lookup (tensors h') q = lookup (tensors h) q"
    using fr t by simp
  show "fresh (tensors h) \<le> fresh (tensors h')"
    using w t by (metis lookup_fresh not_le_imp_less order_less_imp_le order.trans)
qed

subsection \<open>Skipping\<close>

lemma deref_Some [simp]: "lookup s p = Some x \<Longrightarrow> deref s p = Inr x"
  by (simp add: deref_def)

lemma deref_None [simp]: "lookup s p = None \<Longrightarrow> deref s p = Inl DanglingPointer"
  by (simp add: deref_def)

lemma clone_Some:
  "lookup (tensors h) r = Some t \<Longrightarrow>
   clone h r = Inr (h\<lparr>tensors := alloc (tensors h) t\<rparr>, fresh (tensors h))"
  by (simp add: clone_def new_tensor_def)

lemma lookup_alloc_old: "lookup s p = Some x \<Longrightarrow> lookup (alloc s y) p = Some x"
  by (auto dest: lookup_Some_less)

lemma fold_conv_bn_skip:
  assumes "lookup (tensors h0) (bvs ! 0) = Some tScale"
    "lookup (tensors h0) (bvs ! 1) = Some tB"
    "lookup (tensors h0) (bvs ! 2) = Some tMean"
    "lookup (tensors h0) (bvs ! 3) = Some tVar"
    "lookup (tensors h0) (cvs ! 0) = Some tW"
    "fold_checks tScale tB tMean tVar tW"
  shows "fold_conv_bn ops h0 cvs bvs eps has_bias = Inr None"
proof -
  have "bvs ! 0 < fresh (tensors h0)" "bvs ! 1 < fresh (tensors h0)" "bvs ! 2 < fresh (tensors h0)"
    "bvs ! 3 < fresh (tensors h0)" "cvs ! 0 < fresh (tensors h0)"
    using assms by (auto dest: lookup_Some_less)
  then show ?thesis
    using assms unfolding fold_conv_bn_def clone_def new_tensor_def
    by simp
qed

lemma body_at_checks:
  assumes "lookup (nodes h) c = Some cn" "n_outputs cn \<noteq> []"
    "lookup (vals h) (n_outputs cn ! 0) = Some cv" "v_uses cv = [(bnNode, off)]"
    "lookup (nodes h) bnNode = Some bn" "n_kind bn = onnx_BatchNormalization"
    "length (n_outputs cn) = length (n_outputs bn)"
    "attr_f bn ''epsilon'' = Inr eps"
    "getValues h c m = Inr cvs" "cvs \<noteq> []" "length (n_inputs cn) = 3 \<longrightarrow> length cvs = 2"
    "getValues h bnNode m = Inr bvs" "length bvs = 4"
  shows "fuseConvBatchNorm_body ops b c h m =
     ebind (fold_conv_bn ops h cvs bvs eps (length (n_inputs cn) = 3)) (\<lambda>folded.
       case folded of
         None \<Rightarrow> Inr None
       | Some (h', convW, convB) \<Rightarrow>
           ebind (rewrite_conv_bn b c bnNode convW convB h' m) (\<lambda>r. Inr (Some r)))"
  using assms unfolding fuseConvBatchNorm_body_def
  by (auto simp: at_index_def Let_def)


subsection \<open>The first resolved input\<close>

lemma getValues_loop_first:
  "getValues_loop h m vs = Inr (t # ts) \<Longrightarrow>
   \<exists>i<length vs. resolve_input h m (vs ! i) = Inr (Some t) \<and>
        (\<forall>j<i. resolve_input h m (vs ! j) = Inr None)"
proof (induction vs)
  case Nil
  then show ?case by simp
next
  case (Cons v vs)
  from Cons.prems obtain x ts' where
    x: "resolve_input h m v = Inr x" and ts': "getValues_loop h m vs = Inr ts'" and
    e: "t # ts = (case x of None \<Rightarrow> ts' | Some u \<Rightarrow> u # ts')"
    by (auto simp: ebind_eq_Inr)
  show ?case
  proof (cases x)
    case None
    with e ts' have "getValues_loop h m vs = Inr (t # ts)" by simp
    from Cons.IH[OF this] obtain i where
      i: "i < length vs" "resolve_input h m (vs ! i) = Inr (Some t)"
        "\<forall>j<i. resolve_input h m (vs ! j) = Inr None"
      by blast
    have "\<forall>j<Suc i. resolve_input h m ((v # vs) ! j) = Inr None"
      using i(3) x None by (auto simp: less_Suc_eq_0_disj)
    with i(1,2) show ?thesis
      by (intro exI[of _ "Suc i"]) simp
  next
    case (Some u)
    with e x have "resolve_input h m v = Inr (Some t)" by simp
    then show ?thesis by (intro exI[of _ 0]) simp
  qed
qed

lemma getValues_loop_data_first:
  "getValues_loop h m vs = Inr ts \<Longrightarrow> vs \<noteq> [] \<Longrightarrow>
   resolve_input h m (vs ! 0) = Inr (Some r0) \<Longrightarrow> ts \<noteq> [] \<and> ts ! 0 = r0"
  by (cases vs) (auto simp: ebind_eq_Inr)

subsection \<open>The arithmetic of the fold, elementwise\<close>

lemma tensors_okD: "tensors_ok h \<Longrightarrow> lookup (tensors h) r = Some t \<Longrightarrow> tensor_ok t"
  by (auto simp: tensors_ok_def lookup_def list_all_length split: if_splits)

lemma broadcast_vec_1d:
  assumes "t_sizes a = [c]" "t_sizes v = [c]" "length (t_data a) = c"
  shows "broadcast_vec ops f a v =
     Inr \<lparr>t_dtype = result_type ops (t_dtype a) (t_dtype v), t_sizes = [c],
          t_data = map (\<lambda>j. f (t_data a ! j) (t_data v ! j)) [0 ..< c]\<rparr>"
  using assms by (simp add: broadcast_vec_def size0_def Let_def)

lemma scale_row_props:
  assumes "length (t_data w) = n * row_len w" "i < n"
  shows "t_sizes (scale_row ops w i s) = t_sizes w"
    and "t_dtype (scale_row ops w i s) = t_dtype w"
    and "length (t_data (scale_row ops w i s)) = length (t_data w)"
    and "j < length (t_data w) \<Longrightarrow>
         t_data (scale_row ops w i s) ! j =
           (if i * row_len w \<le> j \<and> j < i * row_len w + row_len w
            then s_mul ops (t_data w ! j) s else t_data w ! j)"
proof -
  let ?r = "row_len w"
  have le: "i * ?r + ?r \<le> n * ?r"
  proof -
    have "Suc i \<le> n" using assms(2) by simp
    then have "Suc i * ?r \<le> n * ?r" by (rule mult_le_mono1)
    then show ?thesis by (simp add: add.commute)
  qed
  show "t_sizes (scale_row ops w i s) = t_sizes w" "t_dtype (scale_row ops w i s) = t_dtype w"
    by (simp_all add: scale_row_def Let_def)
  have a1: "i * ?r \<le> length (t_data w)" using le unfolding assms(1) by linarith
  have a2: "?r \<le> length (t_data w) - i * ?r" using le unfolding assms(1) by linarith
  have a3: "i * ?r + ?r \<le> length (t_data w)" using le unfolding assms(1) by linarith
  show len: "length (t_data (scale_row ops w i s)) = length (t_data w)"
    using a1 a2 a3 by (simp add: scale_row_def Let_def min_absorb2 min_absorb1)
  show "t_data (scale_row ops w i s) ! j =
           (if i * ?r \<le> j \<and> j < i * ?r + ?r then s_mul ops (t_data w ! j) s else t_data w ! j)"
    if "j < length (t_data w)"
    using that a1 a2 a3
    by (auto simp: scale_row_def Let_def nth_append min_absorb2 min_absorb1 add.commute)
qed

lemma scale_rows_aux:
  assumes "length (t_data w) = n * row_len w" "k \<le> n"
  shows "t_sizes (foldl (\<lambda>w i. scale_row ops w i (s ! i)) w [0 ..< k]) = t_sizes w \<and>
         t_dtype (foldl (\<lambda>w i. scale_row ops w i (s ! i)) w [0 ..< k]) = t_dtype w \<and>
         length (t_data (foldl (\<lambda>w i. scale_row ops w i (s ! i)) w [0 ..< k])) = length (t_data w) \<and>
         (\<forall>j < length (t_data w).
            t_data (foldl (\<lambda>w i. scale_row ops w i (s ! i)) w [0 ..< k]) ! j =
              (if j < k * row_len w then s_mul ops (t_data w ! j) (s ! (j div row_len w))
               else t_data w ! j))"
  using assms(2)
proof (induction k)
  case 0
  then show ?case by simp
next
  case (Suc k)
  let ?w = "foldl (\<lambda>w i. scale_row ops w i (s ! i)) w [0 ..< k]"
  let ?r = "row_len w"
  from Suc have IH: "t_sizes ?w = t_sizes w" "t_dtype ?w = t_dtype w"
    "length (t_data ?w) = length (t_data w)"
    "\<forall>j < length (t_data w). t_data ?w ! j =
        (if j < k * ?r then s_mul ops (t_data w ! j) (s ! (j div ?r)) else t_data w ! j)"
    by simp_all
  have r: "row_len ?w = ?r" by (simp add: row_len_def IH(1))
  have l: "length (t_data ?w) = n * row_len ?w" using IH(3) assms(1) r by simp
  have kn: "k < n" using Suc.prems by simp
  note p = scale_row_props[OF l kn, where ops = ops and s = "s ! k"]
  have f: "foldl (\<lambda>w i. scale_row ops w i (s ! i)) w [0 ..< Suc k] = scale_row ops ?w k (s ! k)"
    by simp
  have "\<forall>j < length (t_data w).
          t_data (scale_row ops ?w k (s ! k)) ! j =
              (if j < Suc k * ?r then s_mul ops (t_data w ! j) (s ! (j div ?r))
               else t_data w ! j)"
  proof (intro allI impI)
    fix j assume j: "j < length (t_data w)"
    then have j': "j < length (t_data ?w)" using IH(3) by simp
    have d: "j div ?r = k" if "k * ?r \<le> j" "j < k * ?r + ?r"
    proof -
      have "0 < ?r" using that by (cases "?r = 0") auto
      then show ?thesis using that
        by (metis add.commute div_nat_eqI mult.commute mult_Suc_right)
    qed
    show "t_data (scale_row ops ?w k (s ! k)) ! j =
              (if j < Suc k * ?r then s_mul ops (t_data w ! j) (s ! (j div ?r))
               else t_data w ! j)"
      using p(4)[OF j'] IH(4) j d by (auto simp: r add.commute)
  qed
  then show ?case
    unfolding f using p(1,2,3) IH(1,2,3) by simp
qed

lemma scale_rows_props:
  assumes "tensor_ok w" "t_sizes w = c # rest"
  shows "t_sizes (scale_rows ops w sc) = t_sizes w"
    and "t_dtype (scale_rows ops w sc) = t_dtype w"
    and "\<forall>i<c. \<forall>k<prod_list rest.
           t_data (scale_rows ops w sc) ! (i * prod_list rest + k) =
             s_mul ops (t_data w ! (i * prod_list rest + k)) (t_data sc ! i)"
proof -
  let ?r = "prod_list rest"
  have r: "row_len w = ?r" by (simp add: row_len_def assms(2))
  have l: "length (t_data w) = c * row_len w"
    using assms by (simp add: tensor_ok_def r)
  have s0: "size0 w = c" by (simp add: size0_def assms(2))
  note a = scale_rows_aux[OF l order_refl, where ops = ops and s = "t_data sc"]
  show "t_sizes (scale_rows ops w sc) = t_sizes w" "t_dtype (scale_rows ops w sc) = t_dtype w"
    using a by (simp_all add: scale_rows_def s0)
  show "\<forall>i<c. \<forall>k<?r. t_data (scale_rows ops w sc) ! (i * ?r + k) =
             s_mul ops (t_data w ! (i * ?r + k)) (t_data sc ! i)"
  proof (intro allI impI)
    fix i k assume i: "i < c" and k: "k < ?r"
    have "i * ?r + k < i * ?r + ?r" using k by simp
    also have "\<dots> = Suc i * ?r" by simp
    also have "\<dots> \<le> c * ?r" using i by (intro mult_le_mono1) simp
    finally have lt: "i * ?r + k < c * ?r" .
    have d: "(i * ?r + k) div ?r = i" using k by simp
    show "t_data (scale_rows ops w sc) ! (i * ?r + k) =
             s_mul ops (t_data w ! (i * ?r + k)) (t_data sc ! i)"
      using a lt d by (simp add: scale_rows_def s0 l r)
  qed
qed


lemma dim1_sizes: "dim t = 1 \<Longrightarrow> t_sizes t = [size0 t]"
  by (cases "t_sizes t") (auto simp: dim_def size0_def)

lemma scale_factor_tensor:
  assumes "t_sizes tScale = [c]" "t_sizes tVar = [c]" "length (t_data tScale) = c"
    "length (t_data tVar) = c"
  shows "broadcast_vec ops (s_div ops) tScale (sqrt_tensor ops (add_scalar ops tVar eps)) =
     Inr \<lparr>t_dtype = result_type ops (t_dtype tScale) (t_dtype tVar), t_sizes = [c],
          t_data = map (scale_factor ops tScale tVar eps) [0 ..< c]\<rparr>"
proof -
  let ?v = "sqrt_tensor ops (add_scalar ops tVar eps)"
  have v: "t_sizes ?v = [c]" "t_dtype ?v = t_dtype tVar"
    "t_data ?v = map (\<lambda>x. s_sqrt ops (s_add ops x eps)) (t_data tVar)"
    using assms(2) by (simp_all add: sqrt_tensor_def add_scalar_def)
  have "map (\<lambda>j. s_div ops (t_data tScale ! j) (t_data ?v ! j)) [0 ..< c] =
        map (scale_factor ops tScale tVar eps) [0 ..< c]"
    using assms(4) by (simp add: v(3) scale_factor_def)
  then show ?thesis
    using broadcast_vec_1d[OF assms(1) v(1) assms(3), of ops "s_div ops"] by (simp add: v(2))
qed

subsection \<open>A rule for properties of the walk\<close>

text \<open>
  A relation between states that holds across every fusion and across the destruction
  of the fused convolution, and is reflexive and transitive, holds across the walk.
\<close>

lemma walk_rule:
  fixes ops :: "'a scalar_ops"
  assumes body: "\<And>(ops :: 'a scalar_ops) b n h m h' m'.
        fuseConvBatchNorm_body ops b n h m = Inr (Some (h', m')) \<Longrightarrow> R (h, m) (h', m')"
    and dc: "\<And>h b n h' cur m. destroyCurrent h b n = Inr (h', cur) \<Longrightarrow> R (h, m) (h', m)"
    and refl: "\<And>s. R s s"
    and trans: "\<And>s t u. R s t \<Longrightarrow> R t u \<Longrightarrow> R s u"
  shows "(\<forall>s'. fuseConvBatchNorm k ops b s = Some (Inr s') \<longrightarrow> R s s')"
    and "(\<forall>s'. fuse_loop k ops b it s = Some (Inr s') \<longrightarrow> R s s')"
    and "(\<forall>s'. fuse_child_blocks k ops bs s = Some (Inr s') \<longrightarrow> R s s')"
proof (induction k ops b s and k ops b it s and k ops bs s
       rule: fuseConvBatchNorm_fuse_loop_fuse_child_blocks.induct)
  case (1 ops b s)
  then show ?case by simp
next
  case (2 k ops b s)
  then show ?case by (auto simp: rbind_eq_Some_Inr)
next
  case (3 ops b it s)
  then show ?case by simp
next
  case (4 k ops b s)
  then show ?case by (simp add: refl)
next
  case (5 k ops b n s)
  have IHc: "\<And>(nd :: 'a Node) s'. fuse_child_blocks k ops (n_blocks nd) s = Some (Inr s') \<Longrightarrow> R s s'"
    using "5.IH"(1) by blast
  have IHl: "\<And>it t s'. fuse_loop k ops b it t = Some (Inr s') \<Longrightarrow> R t s'"
  proof -
    fix it t s'
    assume l: "fuse_loop k ops b it t = Some (Inr s')"
    define pn :: "'a Node" where
      "pn = \<lparr>n_kind = prim_Param, n_inputs = [], n_outputs = [], n_attrs = [],
             n_blocks = [], n_owning_block = None\<rparr>"
    have "n_kind pn \<noteq> onnx_Conv" by (simp add: pn_def)
    from "5.IH"(4)[OF this] l show "R t s'"
      by blast
  qed
  show ?case
  proof (intro allI impI)
    fix s'
    assume r: "fuse_loop (Suc k) ops b (Some n) s = Some (Inr s')"
    then obtain nd :: "'a Node" and s1 and nd1 :: "'a Node" where
      s1: "fuse_child_blocks k ops (n_blocks nd) s = Some (Inr s1)" and
      rest: "(if n_kind nd1 = onnx_Conv then
         rbind (lift_err (fuseConvBatchNorm_body ops b n (fst s1) (snd s1))) (\<lambda>r.
           case r of
             None \<Rightarrow> rbind (lift_err (it_next (fst s1) b (Some n))) (\<lambda>it. fuse_loop k ops b it s1)
           | Some (h2, m2) \<Rightarrow>
               rbind (lift_err (destroyCurrent h2 b n)) (\<lambda>(h3, cur).
               rbind (lift_err (it_next h3 b cur)) (\<lambda>it. fuse_loop k ops b it (h3, m2))))
       else rbind (lift_err (it_next (fst s1) b (Some n))) (\<lambda>it. fuse_loop k ops b it s1)) =
        Some (Inr s')"
      by (auto simp: rbind_eq_Some_Inr)
    have a: "R s s1" using IHc s1 by blast
    have b: "R s1 s'"
    proof (cases "n_kind nd1 = onnx_Conv")
      case False
      with rest show ?thesis by (auto simp: rbind_eq_Some_Inr dest: IHl)
    next
      case True
      with rest obtain r where br: "fuseConvBatchNorm_body ops b n (fst s1) (snd s1) = Inr r"
        and rr: "(case r of
             None \<Rightarrow> rbind (lift_err (it_next (fst s1) b (Some n))) (\<lambda>it. fuse_loop k ops b it s1)
           | Some (h2, m2) \<Rightarrow>
               rbind (lift_err (destroyCurrent h2 b n)) (\<lambda>(h3, cur).
               rbind (lift_err (it_next h3 b cur)) (\<lambda>it. fuse_loop k ops b it (h3, m2)))) =
          Some (Inr s')"
        by (auto simp: rbind_eq_Some_Inr)
      show ?thesis
      proof (cases r)
        case None
        with rr show ?thesis by (auto simp: rbind_eq_Some_Inr dest: IHl)
      next
        case (Some hm)
        obtain h2 m2 where hm: "hm = (h2, m2)" by (cases hm)
        from rr Some hm obtain h3 cur it' where
          d: "destroyCurrent h2 b n = Inr (h3, cur)" and
          l: "fuse_loop k ops b it' (h3, m2) = Some (Inr s')"
          by (auto simp: rbind_eq_Some_Inr)
        have "fuseConvBatchNorm_body ops b n (fst s1) (snd s1) = Inr (Some (h2, m2))"
          using br Some hm by simp
        then have "R (fst s1, snd s1) (h2, m2)" by (rule body)
        then have "R s1 (h2, m2)" by simp
        moreover have "R (h2, m2) (h3, m2)" using dc[OF d] .
        moreover have "R (h3, m2) s'" using IHl[OF l] .
        ultimately show ?thesis by (blast intro: trans)
      qed
    qed
    show "R s s'" using a b by (rule trans)
  qed
next
  case (6 k ops s)
  then show ?case by (simp add: refl)
next
  case (7 k ops c cs s)
  then show ?case by (auto simp: rbind_eq_Some_Inr intro: trans)
qed

lemma walk_table:
  "fuseConvBatchNorm k ops b (h, m) = Some (Inr (h', m')) \<Longrightarrow> m \<subseteq>\<^sub>m m'"
  using walk_rule(1)[where R = "\<lambda>s s'. snd s \<subseteq>\<^sub>m snd s'" and ops = ops and k = k and b = b
      and s = "(h, m)"]
  by (auto dest: body_table intro: map_le_trans)

subsection \<open>Exact use lists are kept by the primitives of the IR\<close>

lemma wf_irI:
  assumes "\<And>v n i. used h v n i = place h n i v"
    and "\<And>v vv. lookup (vals h) v = Some vv \<Longrightarrow> distinct (v_uses vv)"
    and "\<And>n nd v. lookup (nodes h) n = Some nd \<Longrightarrow> v \<in> set (n_outputs nd) \<Longrightarrow>
           \<exists>vv. lookup (vals h) v = Some vv \<and> v_node vv = n"
  shows "wf_ir h"
  using assms unfolding wf_ir_def use_lists_exact_def outputs_defined_def by blast

lemma wf_ir_exact: "wf_ir h \<Longrightarrow> used h v n i = place h n i v"
  by (simp add: wf_ir_def use_lists_exact_def)

lemma wf_ir_distinct: "wf_ir h \<Longrightarrow> lookup (vals h) v = Some vv \<Longrightarrow> distinct (v_uses vv)"
  by (simp add: wf_ir_def use_lists_exact_def)

lemma wf_ir_output:
  "wf_ir h \<Longrightarrow> lookup (nodes h) n = Some nd \<Longrightarrow> v \<in> set (n_outputs nd) \<Longrightarrow>
   \<exists>vv. lookup (vals h) v = Some vv \<and> v_node vv = n"
  unfolding wf_ir_def outputs_defined_def by blast

lemma used_live_node: "wf_ir h \<Longrightarrow> lookup (vals h) v = Some vv \<Longrightarrow> (n, i) \<in> set (v_uses vv) \<Longrightarrow>
   \<exists>nd. lookup (nodes h) n = Some nd \<and> i < length (n_inputs nd) \<and> n_inputs nd ! i = v"
  using wf_ir_exact[of h v n i] by (auto simp: used_def place_def split: option.splits)

lemma input_live: "wf_ir h \<Longrightarrow> lookup (nodes h) n = Some nd \<Longrightarrow> i < length (n_inputs nd) \<Longrightarrow>
   \<exists>vv. lookup (vals h) (n_inputs nd ! i) = Some vv \<and> (n, i) \<in> set (v_uses vv)"
  using wf_ir_exact[of h "n_inputs nd ! i" n i] by (auto simp: used_def place_def split: option.splits)

lemma wf_blocks_update [simp]: "wf_ir (h\<lparr>blocks := x\<rparr>) = wf_ir h"
  by (simp add: wf_ir_def use_lists_exact_def outputs_defined_def place_def used_def)

lemma wf_tensors_update [simp]: "wf_ir (h\<lparr>tensors := x\<rparr>) = wf_ir h"
  by (simp add: wf_ir_def use_lists_exact_def outputs_defined_def place_def used_def)

lemma wf_put_val:
  assumes wf: "wf_ir h" and l: "lookup (vals h) v = Some vv" and u: "v_uses vv' = v_uses vv"
    and d: "v_node vv' = v_node vv"
  shows "wf_ir (h\<lparr>vals := put (vals h) v vv'\<rparr>)"
proof (rule wf_irI)
  fix x n i
  show "used (h\<lparr>vals := put (vals h) v vv'\<rparr>) x n i = place (h\<lparr>vals := put (vals h) v vv'\<rparr>) n i x"
    using wf_ir_exact[OF wf, of x n i] l u by (auto simp: used_def place_def)
next
  fix x xv assume "lookup (vals (h\<lparr>vals := put (vals h) v vv'\<rparr>)) x = Some xv"
  then show "distinct (v_uses xv)"
    using wf_ir_distinct[OF wf] l u by (auto split: if_splits)
next
  fix n nd x
  assume "lookup (nodes (h\<lparr>vals := put (vals h) v vv'\<rparr>)) n = Some nd" "x \<in> set (n_outputs nd)"
  then show "\<exists>xv. lookup (vals (h\<lparr>vals := put (vals h) v vv'\<rparr>)) x = Some xv \<and> v_node xv = n"
    using wf_ir_output[OF wf, of n nd x] l d by auto
qed

lemma wf_put_node:
  assumes wf: "wf_ir h" and l: "lookup (nodes h) n = Some nd" and u: "n_inputs nd' = n_inputs nd"
    and d: "n_outputs nd' = n_outputs nd"
  shows "wf_ir (h\<lparr>nodes := put (nodes h) n nd'\<rparr>)"
proof (rule wf_irI)
  fix x m i
  show "used (h\<lparr>nodes := put (nodes h) n nd'\<rparr>) x m i = place (h\<lparr>nodes := put (nodes h) n nd'\<rparr>) m i x"
    using wf_ir_exact[OF wf, of x m i] l u by (auto simp: used_def place_def)
next
  fix x xv assume "lookup (vals (h\<lparr>nodes := put (nodes h) n nd'\<rparr>)) x = Some xv"
  then show "distinct (v_uses xv)"
    using wf_ir_distinct[OF wf] by auto
next
  fix m md x
  assume "lookup (nodes (h\<lparr>nodes := put (nodes h) n nd'\<rparr>)) m = Some md" "x \<in> set (n_outputs md)"
  then show "\<exists>xv. lookup (vals (h\<lparr>nodes := put (nodes h) n nd'\<rparr>)) x = Some xv \<and> v_node xv = m"
    using wf_ir_output[OF wf, of m _ x] l d by (auto split: if_splits)
qed

lemma used_fresh [simp]: "used h (fresh (vals h)) n i = False"
  by (simp add: used_def)

lemma place_fresh [simp]: "place h (fresh (nodes h)) i v = False"
  by (simp add: place_def)

lemma wf_no_place_fresh_val: "wf_ir h \<Longrightarrow> \<not> place h n i (fresh (vals h))"
  using wf_ir_exact[of h "fresh (vals h)" n i] by simp

lemma wf_no_use_fresh_node: "wf_ir h \<Longrightarrow> \<not> used h v (fresh (nodes h)) i"
  using wf_ir_exact[of h v "fresh (nodes h)" i] by simp

lemma create_1:
  "create h k 1 =
     (h\<lparr>nodes := alloc (nodes h)
           \<lparr>n_kind = k, n_inputs = [], n_outputs = [fresh (vals h)], n_attrs = [],
            n_blocks = [], n_owning_block = None\<rparr>,
         vals := alloc (vals h)
           \<lparr>v_node = fresh (nodes h), v_offset = 0, v_name = None, v_uses = [],
            v_type = DynamicTensorType\<rparr>\<rparr>, fresh (nodes h))"
  by (simp add: create_def Let_def)

lemma wf_create:
  assumes wf: "wf_ir h" and c: "create h k 1 = (h', n)"
  shows "wf_ir h'"
proof -
  let ?N = "fresh (nodes h)" and ?U = "fresh (vals h)"
  have h': "h' = h\<lparr>nodes := alloc (nodes h)
           \<lparr>n_kind = k, n_inputs = [], n_outputs = [?U], n_attrs = [],
            n_blocks = [], n_owning_block = None\<rparr>,
         vals := alloc (vals h)
           \<lparr>v_node = ?N, v_offset = 0, v_name = None, v_uses = [],
            v_type = DynamicTensorType\<rparr>\<rparr>"
    using c unfolding create_1 by auto
  show ?thesis
  proof (rule wf_irI)
    fix v m i
    show "used h' v m i = place h' m i v"
      using wf_ir_exact[OF wf, of v m i] wf_no_place_fresh_val[OF wf, of m i]
        wf_no_use_fresh_node[OF wf, of v i]
      by (auto simp: h' used_def place_def split: option.splits)
  next
    fix v vv assume "lookup (vals h') v = Some vv"
    then show "distinct (v_uses vv)"
      using wf_ir_distinct[OF wf] by (auto simp: h' split: if_splits)
  next
    fix m md v assume "lookup (nodes h') m = Some md" "v \<in> set (n_outputs md)"
    then show "\<exists>vv. lookup (vals h') v = Some vv \<and> v_node vv = m"
      using wf_ir_output[OF wf, of m md v]
      by (auto simp: h' split: if_splits dest: lookup_Some_less)
  qed
qed

lemma addInput_Inr:
  "addInput h n v = Inr h' \<longleftrightarrow>
     (\<exists>nd vv. lookup (nodes h) n = Some nd \<and> lookup (vals h) v = Some vv \<and>
        h' = h\<lparr>vals := put (vals h) v (vv\<lparr>v_uses := v_uses vv @ [(n, length (n_inputs nd))]\<rparr>),
               nodes := put (nodes h) n (nd\<lparr>n_inputs := n_inputs nd @ [v]\<rparr>)\<rparr>)"
  by (auto simp: addInput_def ebind_eq_Inr deref_eq_Inr)

lemma wf_addInput:
  assumes wf: "wf_ir h" and a: "addInput h n v = Inr h'"
  shows "wf_ir h'"
proof -
  from a obtain nd vv where nd: "lookup (nodes h) n = Some nd" and vv: "lookup (vals h) v = Some vv"
    and h': "h' = h\<lparr>vals := put (vals h) v (vv\<lparr>v_uses := v_uses vv @ [(n, length (n_inputs nd))]\<rparr>),
               nodes := put (nodes h) n (nd\<lparr>n_inputs := n_inputs nd @ [v]\<rparr>)\<rparr>"
    by (auto simp: addInput_Inr)
  have nu: "(n, length (n_inputs nd)) \<notin> set (v_uses vv)"
    using wf_ir_exact[OF wf, of v n "length (n_inputs nd)"] nd vv
    by (simp add: used_def place_def)
  show ?thesis
  proof (rule wf_irI)
    fix x m i
    have u: "used h' x m i =
        (if x = v then (m, i) \<in> set (v_uses vv) \<or> (m = n \<and> i = length (n_inputs nd))
         else used h x m i)"
      by (auto simp: h' used_def)
    have p: "place h' m i x =
        (if m = n then (i < length (n_inputs nd) \<and> n_inputs nd ! i = x) \<or>
                       (i = length (n_inputs nd) \<and> x = v)
         else place h m i x)"
      by (auto simp: h' place_def nth_append)
    have e: "used h x m i = place h m i x" by (rule wf_ir_exact[OF wf])
    have uv: "used h v m i = ((m, i) \<in> set (v_uses vv))" using vv by (simp add: used_def)
    have pn: "place h n i x = (i < length (n_inputs nd) \<and> n_inputs nd ! i = x)"
      using nd by (simp add: place_def)
    show "used h' x m i = place h' m i x"
      unfolding u p using e uv pn by (cases "x = v"; cases "m = n") auto
  next
    fix x xv assume "lookup (vals h') x = Some xv"
    then show "distinct (v_uses xv)"
      using wf_ir_distinct[OF wf] vv nu by (auto simp: h' split: if_splits)
  next
    fix m md x assume "lookup (nodes h') m = Some md" "x \<in> set (n_outputs md)"
    then show "\<exists>xv. lookup (vals h') x = Some xv \<and> v_node xv = m"
      using wf_ir_output[OF wf, of m _ x] nd vv by (auto simp: h' split: if_splits)
  qed
qed

lemma addOutput_Inr:
  "addOutput h n = Inr (h', u) \<longleftrightarrow>
     (\<exists>nd. lookup (nodes h) n = Some nd \<and> u = fresh (vals h) \<and>
        h' = h\<lparr>nodes := put (nodes h) n (nd\<lparr>n_outputs := n_outputs nd @ [fresh (vals h)]\<rparr>),
               vals := alloc (vals h)
                 \<lparr>v_node = n, v_offset = length (n_outputs nd), v_name = None, v_uses = [],
                  v_type = DynamicTensorType\<rparr>\<rparr>)"
  by (auto simp: addOutput_def ebind_eq_Inr deref_eq_Inr Let_def)

lemma wf_addOutput:
  assumes wf: "wf_ir h" and a: "addOutput h n = Inr (h', u)"
  shows "wf_ir h'"
proof -
  from a obtain nd where nd: "lookup (nodes h) n = Some nd" and u: "u = fresh (vals h)"
    and h': "h' = h\<lparr>nodes := put (nodes h) n (nd\<lparr>n_outputs := n_outputs nd @ [fresh (vals h)]\<rparr>),
               vals := alloc (vals h)
                 \<lparr>v_node = n, v_offset = length (n_outputs nd), v_name = None, v_uses = [],
                  v_type = DynamicTensorType\<rparr>\<rparr>"
    by (auto simp: addOutput_Inr)
  show ?thesis
  proof (rule wf_irI)
    fix x m i
    show "used h' x m i = place h' m i x"
      using wf_ir_exact[OF wf, of x m i] wf_no_place_fresh_val[OF wf, of m i] nd
      by (auto simp: h' used_def place_def split: option.splits)
  next
    fix x xv assume "lookup (vals h') x = Some xv"
    then show "distinct (v_uses xv)"
      using wf_ir_distinct[OF wf] by (auto simp: h' split: if_splits)
  next
    fix m md x assume "lookup (nodes h') m = Some md" "x \<in> set (n_outputs md)"
    then show "\<exists>xv. lookup (vals h') x = Some xv \<and> v_node xv = m"
      using wf_ir_output[OF wf, of m _ x] nd
      by (auto simp: h' split: if_splits dest: lookup_Some_less)
  qed
qed

lemma wf_Block_addInput: "wf_ir h \<Longrightarrow> Block_addInput h b = Inr (h', u) \<Longrightarrow> wf_ir h'"
  by (auto simp: Block_addInput_def ebind_eq_Inr dest: wf_addOutput)

lemma wf_Graph_addInput: "wf_ir h \<Longrightarrow> Graph_addInput h = Inr (h', u) \<Longrightarrow> wf_ir h'"
  by (auto simp: Graph_addInput_def dest: wf_Block_addInput)

lemma wf_copyMetadata: "wf_ir h \<Longrightarrow> copyMetadata h a b = Inr h' \<Longrightarrow> wf_ir h'"
  by (auto simp: copyMetadata_def ebind_eq_Inr deref_eq_Inr intro!: wf_put_val)

lemma wf_inferTypeFrom: "wf_ir h \<Longrightarrow> inferTypeFrom h v r = Inr h' \<Longrightarrow> wf_ir h'"
  by (auto simp: inferTypeFrom_def ebind_eq_Inr deref_eq_Inr intro!: wf_put_val)

lemma wf_copyAttributes: "wf_ir h \<Longrightarrow> copyAttributes h a b = Inr h' \<Longrightarrow> wf_ir h'"
  by (auto simp: copyAttributes_def ebind_eq_Inr deref_eq_Inr intro!: wf_put_node)

lemma wf_insertBefore: "wf_ir h \<Longrightarrow> insertBefore h a b = Inr h' \<Longrightarrow> wf_ir h'"
  by (auto simp: insertBefore_def ebind_eq_Inr deref_eq_Inr split: option.splits if_splits
           intro!: wf_put_node)

lemma wf_replaceFirstUseWith:
  assumes wf: "wf_ir h" and r: "replaceFirstUseWith h old new = Inr h'" and ne: "old \<noteq> new"
  shows "wf_ir h'"
proof -
  from r obtain ov nv u un where
    ov: "lookup (vals h) old = Some ov" and nv: "lookup (vals h) new = Some nv" and
    ue: "v_uses ov \<noteq> []" and u: "u = hd (v_uses ov)" and un: "lookup (nodes h) (fst u) = Some un" and
    h': "h' = h\<lparr>nodes := put (nodes h) (fst u) (un\<lparr>n_inputs := (n_inputs un)[snd u := new]\<rparr>),
               vals := put (put (vals h) new (nv\<lparr>v_uses := v_uses nv @ [u]\<rparr>))
                         old (ov\<lparr>v_uses := tl (v_uses ov)\<rparr>)\<rparr>"
    unfolding replaceFirstUseWith_def ebind_eq_Inr deref_eq_Inr at_index_def
    by (auto simp: hd_conv_nth split: if_splits)
  obtain a k where uk: "u = (a, k)" by (cases u)
  obtain rest where uses: "v_uses ov = (a, k) # rest"
    using ue u uk by (cases "v_uses ov") auto
  have dis: "(a, k) \<notin> set rest" "distinct rest"
    using wf_ir_distinct[OF wf ov] uses by auto
  have un': "lookup (nodes h) a = Some un" using un uk by simp
  have pl: "k < length (n_inputs un)" "n_inputs un ! k = old"
    using wf_ir_exact[OF wf, of old a k] ov uses un' by (auto simp: used_def place_def)
  have nn: "(a, k) \<notin> set (v_uses nv)"
    using wf_ir_exact[OF wf, of new a k] nv un' pl ne by (auto simp: used_def place_def)
  have h2: "h' = h\<lparr>nodes := put (nodes h) a (un\<lparr>n_inputs := (n_inputs un)[k := new]\<rparr>),
               vals := put (put (vals h) new (nv\<lparr>v_uses := v_uses nv @ [(a, k)]\<rparr>))
                         old (ov\<lparr>v_uses := rest\<rparr>)\<rparr>"
    using h' uk uses by simp
  show ?thesis
  proof (rule wf_irI)
    fix x m i
    have e: "used h x m i = place h m i x" by (rule wf_ir_exact[OF wf])
    have uo: "used h old m i = ((m, i) = (a, k) \<or> (m, i) \<in> set rest)"
      using ov uses by (auto simp: used_def)
    have un2: "used h new m i = ((m, i) \<in> set (v_uses nv))"
      using nv by (simp add: used_def)
    have pa: "place h a i x = (i < length (n_inputs un) \<and> n_inputs un ! i = x)"
      using un' by (simp add: place_def)
    have u': "used h' x m i =
        (if x = old then (m, i) \<in> set rest
         else if x = new then (m, i) \<in> set (v_uses nv) \<or> (m, i) = (a, k)
         else used h x m i)"
      using ne by (auto simp: h2 used_def)
    have p': "place h' m i x =
        (if m = a then i < length (n_inputs un) \<and> (if i = k then new = x else n_inputs un ! i = x)
         else place h m i x)"
      by (auto simp: h2 place_def nth_list_update)
    show "used h' x m i = place h' m i x"
    proof (cases "m = a \<and> i = k")
      case True
      then show ?thesis
        unfolding u' p' using pl dis(1) ne e pa by auto
    next
      case False
      have "place h' m i x = place h m i x"
        unfolding p' using False pa by auto
      moreover have "used h' x m i = used h x m i"
        unfolding u' using False uo un2 by auto
      ultimately show ?thesis using e by simp
    qed
  next
    fix x xv assume "lookup (vals h') x = Some xv"
    then show "distinct (v_uses xv)"
      using wf_ir_distinct[OF wf] nv dis nn by (auto simp: h2 split: if_splits)
  next
    fix m md x assume "lookup (nodes h') m = Some md" "x \<in> set (n_outputs md)"
    then show "\<exists>xv. lookup (vals h') x = Some xv \<and> v_node xv = m"
      using wf_ir_output[OF wf, of m _ x] un' ov nv by (auto simp: h2 split: if_splits)
  qed
qed

lemma wf_replaceUses:
  "wf_ir h \<Longrightarrow> replaceUses k h old new = Inr h' \<Longrightarrow> old \<noteq> new \<Longrightarrow> wf_ir h'"
  by (induction k arbitrary: h) (auto simp: ebind_eq_Inr dest: wf_replaceFirstUseWith)

lemma wf_replaceAllUsesWith:
  "wf_ir h \<Longrightarrow> replaceAllUsesWith h old new = Inr h' \<Longrightarrow> old \<noteq> new \<Longrightarrow> wf_ir h'"
  by (auto simp: replaceAllUsesWith_def ebind_eq_Inr dest: wf_replaceUses)

lemma vals_upto_uses_refl: "vals_upto_uses s s"
  unfolding vals_upto_uses_def
proof
  fix x show "case lookup s x of None \<Rightarrow> lookup s x = None
          | Some xv \<Rightarrow> (\<exists>us. lookup s x = Some (xv\<lparr>v_uses := us\<rparr>))"
  proof (cases "lookup s x")
    case (Some xv)
    have "xv = xv\<lparr>v_uses := v_uses xv\<rparr>" by simp
    then show ?thesis using Some by (simp, metis)
  qed simp
qed

lemma vals_upto_uses_trans:
  assumes "vals_upto_uses s s'" "vals_upto_uses s' s''"
  shows "vals_upto_uses s s''"
  unfolding vals_upto_uses_def
proof
  fix x
  show "case lookup s x of None \<Rightarrow> lookup s'' x = None
          | Some xv \<Rightarrow> (\<exists>us. lookup s'' x = Some (xv\<lparr>v_uses := us\<rparr>))"
  proof (cases "lookup s x")
    case None
    then have "lookup s' x = None" using assms(1)[unfolded vals_upto_uses_def, rule_format, of x] by simp
    then have "lookup s'' x = None" using assms(2)[unfolded vals_upto_uses_def, rule_format, of x] by simp
    then show ?thesis using None by simp
  next
    case (Some xv)
    then obtain us where a: "lookup s' x = Some (xv\<lparr>v_uses := us\<rparr>)"
      using assms(1)[unfolded vals_upto_uses_def, rule_format, of x] by auto
    then obtain us' where "lookup s'' x = Some (xv\<lparr>v_uses := us, v_uses := us'\<rparr>)"
      using assms(2)[unfolded vals_upto_uses_def, rule_format, of x] by auto
    then show ?thesis using Some by auto
  qed
qed

lemma vals_upto_uses_put:
  assumes "lookup s v = Some vv"
  shows "vals_upto_uses s (put s v (vv\<lparr>v_uses := us\<rparr>))"
  unfolding vals_upto_uses_def
proof
  fix x
  show "case lookup s x of None \<Rightarrow> lookup (put s v (vv\<lparr>v_uses := us\<rparr>)) x = None
          | Some xv \<Rightarrow> (\<exists>us'. lookup (put s v (vv\<lparr>v_uses := us\<rparr>)) x = Some (xv\<lparr>v_uses := us'\<rparr>))"
  proof (cases "x = v")
    case True then show ?thesis using assms by auto
  next
    case False
    show ?thesis
    proof (cases "lookup s x")
      case (Some xv)
      have "xv = xv\<lparr>v_uses := v_uses xv\<rparr>" by simp
      then show ?thesis using Some False by (simp, metis)
    qed (use False in simp)
  qed
qed

lemma vals_upto_usesD:
  "vals_upto_uses s s' \<Longrightarrow> lookup s x = Some xv \<Longrightarrow> \<exists>us. lookup s' x = Some (xv\<lparr>v_uses := us\<rparr>)"
  "vals_upto_uses s s' \<Longrightarrow> lookup s x = None \<Longrightarrow> lookup s' x = None"
  unfolding vals_upto_uses_def by (auto split: option.splits dest: spec[of _ x])

lemma dropInputs_exact:
  assumes "dropInputs h n vs k = Inr h'" "uses_exact_from h n k"
    "lookup (nodes h) n = Some nd" "vs = drop k (n_inputs nd)"
  shows "uses_exact_from h' n (length (n_inputs nd)) \<and> nodes h' = nodes h \<and>
         blocks h' = blocks h \<and> tensors h' = tensors h \<and> root_block h' = root_block h \<and>
         vals_upto_uses (vals h) (vals h')"
  using assms
proof (induction vs arbitrary: h k)
  case Nil
  then have k: "length (n_inputs nd) \<le> k" and h': "h' = h" by auto
  have "uses_exact_from h n (length (n_inputs nd))"
    using Nil(2) Nil(3) k unfolding uses_exact_from_def
    by (auto simp: place_def split: option.splits)
  then show ?case using h' by (simp add: vals_upto_uses_refl)
next
  case (Cons v vs)
  from Cons.prems(4) have k: "k < length (n_inputs nd)"
    by (metis drop_eq_Nil list.distinct(1) not_le)
  have v: "n_inputs nd ! k = v" and vs: "vs = drop (Suc k) (n_inputs nd)"
    using Cons.prems(4) k by (simp_all add: Cons_nth_drop_Suc[symmetric])
  from Cons.prems(1) obtain vv where vv: "lookup (vals h) v = Some vv" and
    mem: "(n, k) \<in> set (v_uses vv)" and
    d: "dropInputs (h\<lparr>vals := put (vals h) v (vv\<lparr>v_uses := remove1 (n, k) (v_uses vv)\<rparr>)\<rparr>) n vs (Suc k) = Inr h'"
    by (auto simp: ebind_eq_Inr deref_eq_Inr split: if_splits)
  let ?h1 = "h\<lparr>vals := put (vals h) v (vv\<lparr>v_uses := remove1 (n, k) (v_uses vv)\<rparr>)\<rparr>"
  have ex: "\<And>x m i. used h x m i = (place h m i x \<and> (m = n \<longrightarrow> k \<le> i))"
    and dis: "\<And>x xv. lookup (vals h) x = Some xv \<Longrightarrow> distinct (v_uses xv)"
    using Cons.prems(2) unfolding uses_exact_from_def by auto
  have dv: "distinct (v_uses vv)" by (rule dis[OF vv])
  have pk: "\<And>x. place h n k x = (x = v)"
    using Cons.prems(3) k v by (auto simp: place_def)
  have e1: "uses_exact_from ?h1 n (Suc k)"
    unfolding uses_exact_from_def
  proof (intro conjI allI impI)
    fix x m i
    have p: "place ?h1 m i x = place h m i x" by (simp add: place_def)
    have u: "used ?h1 x m i = (used h x m i \<and> \<not> (x = v \<and> m = n \<and> i = k))"
      using vv dv mem ex[of x n k] pk[of x] by (auto simp: used_def set_remove1_eq split: option.splits)
    show "used ?h1 x m i = (place ?h1 m i x \<and> (m = n \<longrightarrow> Suc k \<le> i))"
      unfolding p u ex using pk[of x] by (cases "m = n"; cases "i = k") auto
  next
    fix x xv assume "lookup (vals ?h1) x = Some xv"
    then show "distinct (v_uses xv)"
      using dis dv by (auto split: if_splits)
  qed
  have n1: "lookup (nodes ?h1) n = Some nd" using Cons.prems(3) by simp
  from Cons.IH[OF d e1 n1 vs]
  have r: "uses_exact_from h' n (length (n_inputs nd))" "nodes h' = nodes ?h1"
         "blocks h' = blocks ?h1" "tensors h' = tensors ?h1" "root_block h' = root_block ?h1"
         "vals_upto_uses (vals ?h1) (vals h')" by auto
  have "vals_upto_uses (vals h) (vals ?h1)"
    using vals_upto_uses_put[OF vv] by simp
  then have "vals_upto_uses (vals h) (vals h')"
    using r(6) by (rule vals_upto_uses_trans)
  then show ?case using r by simp
qed

lemma lookup_free_list_notin: "x \<notin> set ps \<Longrightarrow> lookup (free_list s ps) x = lookup s x"
  by (simp add: lookup_free_list)

lemma destroy_effect:
  assumes wf: "wf_ir h" and d: "destroy h n = Inr h'"
  shows "\<exists>nd. lookup (nodes h) n = Some nd \<and> list_all (unused h) (n_outputs nd) \<and>
           n_blocks nd = [] \<and>
           nodes h' = free (nodes h) n \<and>
           blocks h' = blocks (removeFromList h n (n_owning_block nd)) \<and>
           tensors h' = tensors h \<and> root_block h' = root_block h \<and>
           vals_upto_uses (free_list (vals h) (n_outputs nd)) (vals h') \<and>
           wf_ir h'"
proof -
  from d obtain nd h1 where nd: "lookup (nodes h) n = Some nd" and
    un: "list_all (unused h) (n_outputs nd)" and nb: "n_blocks nd = []" and
    dr: "dropInputs (h\<lparr>vals := free_list (vals h) (n_outputs nd)\<rparr>) n (n_inputs nd) 0 = Inr h1" and
    h': "h' = (removeFromList h1 n (n_owning_block nd))\<lparr>nodes := free (nodes (removeFromList h1 n (n_owning_block nd))) n\<rparr>"
    by (auto simp: destroy_def ebind_eq_Inr deref_eq_Inr Let_def split: if_splits)
  let ?h0 = "h\<lparr>vals := free_list (vals h) (n_outputs nd)\<rparr>"
  have unD: "\<And>x m i. x \<in> set (n_outputs nd) \<Longrightarrow> \<not> used h x m i"
    using un by (auto simp: list_all_iff unused_def used_def split: option.splits)
  have e0: "uses_exact_from ?h0 n 0"
    unfolding uses_exact_from_def
  proof (intro conjI allI impI)
    fix x m i
    have p: "place ?h0 m i x = place h m i x" by (simp add: place_def)
    have u: "used ?h0 x m i = (x \<notin> set (n_outputs nd) \<and> used h x m i)"
      by (auto simp: used_def lookup_free_list)
    show "used ?h0 x m i = (place ?h0 m i x \<and> (m = n \<longrightarrow> 0 \<le> i))"
      unfolding p u using wf_ir_exact[OF wf, of x m i] unD[of x m i] by auto
  next
    fix x xv assume "lookup (vals ?h0) x = Some xv"
    then show "distinct (v_uses xv)"
      using wf_ir_distinct[OF wf, of x xv] by (auto simp: lookup_free_list split: if_splits)
  qed
  have n0: "lookup (nodes ?h0) n = Some nd" using nd by simp
  from dropInputs_exact[OF dr e0 n0] 
  have r: "uses_exact_from h1 n (length (n_inputs nd))" "nodes h1 = nodes h"
         "blocks h1 = blocks h" "tensors h1 = tensors h" "root_block h1 = root_block h"
         "vals_upto_uses (free_list (vals h) (n_outputs nd)) (vals h1)" by auto
  have rm: "nodes (removeFromList h1 n ob) = nodes h1" "vals (removeFromList h1 n ob) = vals h1"
       "tensors (removeFromList h1 n ob) = tensors h1" "root_block (removeFromList h1 n ob) = root_block h1"
    for ob by (auto simp: removeFromList_def split: option.splits)
  have bl: "blocks (removeFromList h1 n ob) = blocks (removeFromList h n ob)" for ob
    using r(3) by (auto simp: removeFromList_def split: option.splits)
  have nodes': "nodes h' = free (nodes h) n" using h' rm r by simp
  have vals': "vals h' = vals h1" using h' rm by simp
  have wf': "wf_ir h'"
  proof (rule wf_irI)
    fix x m i
    have u: "used h' x m i = used h1 x m i" by (simp add: used_def vals')
    have p: "place h' m i x = (place h1 m i x \<and> m \<noteq> n)"
      by (auto simp: place_def nodes' r(2) lookup_free)
    have ex: "used h1 x m i = (place h1 m i x \<and> (m = n \<longrightarrow> length (n_inputs nd) \<le> i))"
      using r(1) unfolding uses_exact_from_def by blast
    have "place h1 n i x \<Longrightarrow> i < length (n_inputs nd)"
      using nd by (auto simp: place_def r(2))
    then show "used h' x m i = place h' m i x"
      unfolding u p ex by (cases "m = n") auto
  next
    fix x xv assume "lookup (vals h') x = Some xv"
    then show "distinct (v_uses xv)"
      using r(1) unfolding uses_exact_from_def vals' by blast
  next
    fix m md x assume a: "lookup (nodes h') m = Some md" "x \<in> set (n_outputs md)"
    then have mn: "m \<noteq> n" and md: "lookup (nodes h) m = Some md"
      by (auto simp: nodes' lookup_free split: if_splits)
    from wf_ir_output[OF wf md a(2)] obtain xv where
      xv: "lookup (vals h) x = Some xv" "v_node xv = m" by auto
    have "x \<notin> set (n_outputs nd)"
    proof
      assume "x \<in> set (n_outputs nd)"
      from wf_ir_output[OF wf nd this] xv mn show False by auto
    qed
    then have "lookup (free_list (vals h) (n_outputs nd)) x = Some xv"
      using xv by (simp add: lookup_free_list)
    from vals_upto_usesD(1)[OF r(6) this] obtain us where
      "lookup (vals h1) x = Some (xv\<lparr>v_uses := us\<rparr>)" by auto
    then show "\<exists>xv. lookup (vals h') x = Some xv \<and> v_node xv = m"
      using xv(2) by (simp add: vals')
  qed
  show ?thesis
    using nd un nb nodes' wf' r h' rm bl by auto
qed

lemma wf_destroy: "wf_ir h \<Longrightarrow> destroy h n = Inr h' \<Longrightarrow> wf_ir h'"
  using destroy_effect by blast

lemma nodes_upto_inputsI:
  assumes "\<And>m. lookup s m = None \<Longrightarrow> lookup s' m = None"
    and "\<And>m nd. lookup s m = Some nd \<Longrightarrow>
           \<exists>ins. length ins = length (n_inputs nd) \<and> lookup s' m = Some (nd\<lparr>n_inputs := ins\<rparr>)"
  shows "nodes_upto_inputs s s'"
  unfolding nodes_upto_inputs_def using assms by (auto split: option.splits)

lemma nodes_upto_inputsD:
  "nodes_upto_inputs s s' \<Longrightarrow> lookup s m = Some nd \<Longrightarrow>
     \<exists>ins. length ins = length (n_inputs nd) \<and> lookup s' m = Some (nd\<lparr>n_inputs := ins\<rparr>)"
  "nodes_upto_inputs s s' \<Longrightarrow> lookup s m = None \<Longrightarrow> lookup s' m = None"
  unfolding nodes_upto_inputs_def by (auto split: option.splits dest: spec[of _ m])

lemma nodes_upto_inputs_refl: "nodes_upto_inputs s s"
proof (rule nodes_upto_inputsI)
  fix m and nd :: "'a Node" assume "lookup s m = Some nd"
  moreover have "nd = nd\<lparr>n_inputs := n_inputs nd\<rparr>" by simp
  ultimately show "\<exists>ins. length ins = length (n_inputs nd) \<and> lookup s m = Some (nd\<lparr>n_inputs := ins\<rparr>)"
    by metis
qed simp

lemma nodes_upto_inputs_trans:
  assumes "nodes_upto_inputs s s'" "nodes_upto_inputs s' s''"
  shows "nodes_upto_inputs s s''"
proof (rule nodes_upto_inputsI)
  fix m assume "lookup s m = None"
  then show "lookup s'' m = None"
    using assms by (blast dest: nodes_upto_inputsD(2))
next
  fix m and nd :: "'a Node" assume "lookup s m = Some nd"
  from nodes_upto_inputsD(1)[OF assms(1) this] obtain ins where
    a: "length ins = length (n_inputs nd)" "lookup s' m = Some (nd\<lparr>n_inputs := ins\<rparr>)" by auto
  from nodes_upto_inputsD(1)[OF assms(2) a(2)] obtain ins' where
    "length ins' = length ins" "lookup s'' m = Some (nd\<lparr>n_inputs := ins, n_inputs := ins'\<rparr>)" by auto
  then show "\<exists>ins. length ins = length (n_inputs nd) \<and> lookup s'' m = Some (nd\<lparr>n_inputs := ins\<rparr>)"
    using a(1) by auto
qed

lemma nodes_upto_inputs_put:
  assumes "lookup s a = Some un" "length ins = length (n_inputs un)"
  shows "nodes_upto_inputs s (put s a (un\<lparr>n_inputs := ins\<rparr>))"
proof (rule nodes_upto_inputsI)
  fix m assume "lookup s m = None"
  then show "lookup (put s a (un\<lparr>n_inputs := ins\<rparr>)) m = None"
    using assms by auto
next
  fix m and nd :: "'a Node" assume l: "lookup s m = Some nd"
  have e: "nd = nd\<lparr>n_inputs := n_inputs nd\<rparr>" by simp
  show "\<exists>ins'. length ins' = length (n_inputs nd) \<and>
          lookup (put s a (un\<lparr>n_inputs := ins\<rparr>)) m = Some (nd\<lparr>n_inputs := ins'\<rparr>)"
  proof (cases "m = a")
    case True then show ?thesis using assms l by auto
  next
    case False
    then have "lookup (put s a (un\<lparr>n_inputs := ins\<rparr>)) m = Some (nd\<lparr>n_inputs := n_inputs nd\<rparr>)"
      using l by simp
    then show ?thesis by blast
  qed
qed

lemma replaceFirstUseWith_step:
  assumes wf: "wf_ir h" and r: "replaceFirstUseWith h old new = Inr h'" and ne: "old \<noteq> new"
  obtains a k ov where "lookup (vals h) old = Some ov" "v_uses ov \<noteq> []"
    "lookup (vals h') old = Some (ov\<lparr>v_uses := tl (v_uses ov)\<rparr>)"
    "place h a k old"
    "\<And>m i x. place h' m i x = (if m = a \<and> i = k then x = new else place h m i x)"
    "nodes_upto_inputs (nodes h) (nodes h')" "vals_upto_uses (vals h) (vals h')"
    "blocks h' = blocks h" "tensors h' = tensors h" "root_block h' = root_block h"
proof -
  from r obtain ov nv u un where
    ov: "lookup (vals h) old = Some ov" and nv: "lookup (vals h) new = Some nv" and
    ue: "v_uses ov \<noteq> []" and u: "u = hd (v_uses ov)" and un: "lookup (nodes h) (fst u) = Some un" and
    h': "h' = h\<lparr>nodes := put (nodes h) (fst u) (un\<lparr>n_inputs := (n_inputs un)[snd u := new]\<rparr>),
               vals := put (put (vals h) new (nv\<lparr>v_uses := v_uses nv @ [u]\<rparr>))
                         old (ov\<lparr>v_uses := tl (v_uses ov)\<rparr>)\<rparr>"
    unfolding replaceFirstUseWith_def ebind_eq_Inr deref_eq_Inr at_index_def
    by (auto simp: hd_conv_nth split: if_splits)
  obtain a k where uk: "u = (a, k)" by (cases u)
  obtain rest where uses: "v_uses ov = (a, k) # rest"
    using ue u uk by (cases "v_uses ov") auto
  have un': "lookup (nodes h) a = Some un" using un uk by simp
  have pl: "k < length (n_inputs un)" "n_inputs un ! k = old"
    using wf_ir_exact[OF wf, of old a k] ov uses un' by (auto simp: used_def place_def)
  have h2: "h' = h\<lparr>nodes := put (nodes h) a (un\<lparr>n_inputs := (n_inputs un)[k := new]\<rparr>),
               vals := put (put (vals h) new (nv\<lparr>v_uses := v_uses nv @ [(a, k)]\<rparr>))
                         old (ov\<lparr>v_uses := rest\<rparr>)\<rparr>"
    using h' uk uses by simp
  have 1: "lookup (vals h') old = Some (ov\<lparr>v_uses := tl (v_uses ov)\<rparr>)"
    by (simp add: h2 uses)
  have 2: "place h a k old" using un' pl by (simp add: place_def)
  have 3: "place h' m i x = (if m = a \<and> i = k then x = new else place h m i x)" for m i x
    using un' pl by (auto simp: h2 place_def nth_list_update)
  have 4: "nodes_upto_inputs (nodes h) (nodes h')"
    unfolding h2 using nodes_upto_inputs_put[OF un', of "(n_inputs un)[k := new]"] by simp
  have "vals_upto_uses (vals h) (put (vals h) new (nv\<lparr>v_uses := v_uses nv @ [(a, k)]\<rparr>))"
    by (rule vals_upto_uses_put[OF nv])
  moreover have "vals_upto_uses (put (vals h) new (nv\<lparr>v_uses := v_uses nv @ [(a, k)]\<rparr>)) (vals h')"
    unfolding h2 using vals_upto_uses_put[of "put (vals h) new (nv\<lparr>v_uses := v_uses nv @ [(a, k)]\<rparr>)" old ov rest]
      ov ne by simp
  ultimately have 5: "vals_upto_uses (vals h) (vals h')" by (rule vals_upto_uses_trans)
  show ?thesis
    by (rule that[OF ov ue 1 2 3 4 5]) (simp_all add: h2)
qed

lemma replaceUses_effect:
  assumes "wf_ir h" "old \<noteq> new" "replaceUses k h old new = Inr h'"
    "lookup (vals h) old = Some ov" "length (v_uses ov) = k"
  shows "wf_ir h' \<and> (\<forall>m i x. x \<noteq> old \<longrightarrow> place h m i x \<longrightarrow> place h' m i x) \<and>
         (\<forall>m i. place h m i old \<longrightarrow> place h' m i new) \<and>
         nodes_upto_inputs (nodes h) (nodes h') \<and> vals_upto_uses (vals h) (vals h') \<and>
         blocks h' = blocks h \<and> tensors h' = tensors h \<and> root_block h' = root_block h \<and>
         lookup (vals h') old = Some (ov\<lparr>v_uses := []\<rparr>)"
  using assms
proof (induction k arbitrary: h ov)
  case 0
  then have h': "h' = h" and e: "v_uses ov = []" by auto
  have "\<not> place h m i old" for m i
    using wf_ir_exact[OF 0(1), of old m i] 0(4) e by (simp add: used_def)
  moreover have "ov\<lparr>v_uses := []\<rparr> = ov" using e by simp
  ultimately show ?case
    using 0(1) 0(4) h' by (simp add: nodes_upto_inputs_refl vals_upto_uses_refl)
next
  case (Suc k)
  from Suc.prems(3) obtain h1 where
    r1: "replaceFirstUseWith h old new = Inr h1" and r2: "replaceUses k h1 old new = Inr h'"
    by (auto simp: ebind_eq_Inr)
  have wf1: "wf_ir h1" by (rule wf_replaceFirstUseWith[OF Suc.prems(1) r1 Suc.prems(2)])
  obtain a j ov0 where s:
    "lookup (vals h) old = Some ov0" "v_uses ov0 \<noteq> []"
    "lookup (vals h1) old = Some (ov0\<lparr>v_uses := tl (v_uses ov0)\<rparr>)"
    "place h a j old"
    "\<And>m i x. place h1 m i x = (if m = a \<and> i = j then x = new else place h m i x)"
    "nodes_upto_inputs (nodes h) (nodes h1)" "vals_upto_uses (vals h) (vals h1)"
    "blocks h1 = blocks h" "tensors h1 = tensors h" "root_block h1 = root_block h"
    by (rule replaceFirstUseWith_step[OF Suc.prems(1) r1 Suc.prems(2)]) (rule that)
  have ov0: "ov0 = ov" using s(1) Suc.prems(4) by simp
  have len: "length (v_uses (ov\<lparr>v_uses := tl (v_uses ov)\<rparr>)) = k"
    using Suc.prems(5) by simp
  from Suc.IH[OF wf1 Suc.prems(2) r2 s(3)[unfolded ov0] len]
  have ih: "wf_ir h'" "\<And>m i x. x \<noteq> old \<Longrightarrow> place h1 m i x \<Longrightarrow> place h' m i x"
    "\<And>m i. place h1 m i old \<Longrightarrow> place h' m i new"
    "nodes_upto_inputs (nodes h1) (nodes h')" "vals_upto_uses (vals h1) (vals h')"
    "blocks h' = blocks h1" "tensors h' = tensors h1" "root_block h' = root_block h1"
    "lookup (vals h') old = Some (ov\<lparr>v_uses := []\<rparr>)"
    by auto
  have pa: "place h a j x \<Longrightarrow> x = old" for x
    using s(4) by (auto simp: place_def split: option.splits)
  have a: "place h' m i x" if "x \<noteq> old" "place h m i x" for m i x
  proof -
    have "place h1 m i x" unfolding s(5) using that pa[of x] by auto
    then show ?thesis using that(1) by (rule ih(2)[rotated])
  qed
  have b: "place h' m i new" if "place h m i old" for m i
  proof (cases "m = a \<and> i = j")
    case True
    then have "place h1 m i new" unfolding s(5) by simp
    then show ?thesis using Suc.prems(2) ih(2)[of new m i] by auto
  next
    case False
    then have "place h1 m i old" unfolding s(5) using that by auto
    then show ?thesis by (rule ih(3))
  qed
  show ?case
    using ih(1) a b nodes_upto_inputs_trans[OF s(6) ih(4)] vals_upto_uses_trans[OF s(7) ih(5)]
      ih(6-9) s(8-10) by simp
qed

lemma replaceAllUsesWith_effect:
  assumes "wf_ir h" "old \<noteq> new" "replaceAllUsesWith h old new = Inr h'"
  shows "wf_ir h' \<and> (\<forall>m i x. x \<noteq> old \<longrightarrow> place h m i x \<longrightarrow> place h' m i x) \<and>
         (\<forall>m i. place h m i old \<longrightarrow> place h' m i new) \<and>
         nodes_upto_inputs (nodes h) (nodes h') \<and> vals_upto_uses (vals h) (vals h') \<and>
         blocks h' = blocks h \<and> tensors h' = tensors h \<and> root_block h' = root_block h \<and>
         unused h' old"
proof -
  from assms(3) obtain ov where ov: "lookup (vals h) old = Some ov"
    and r: "replaceUses (length (v_uses ov)) h old new = Inr h'"
    by (auto simp: replaceAllUsesWith_def ebind_eq_Inr deref_eq_Inr)
  from replaceUses_effect[OF assms(1,2) r ov refl] show ?thesis
    by (simp add: unused_def)
qed

lemma copyMetadataE:
  assumes "copyMetadata h to from = Inr h'"
  obtains fv tv where "lookup (vals h) from = Some fv" "lookup (vals h) to = Some tv"
    "h' = h\<lparr>vals := put (vals h) to (tv\<lparr>v_type := v_type fv\<rparr>)\<rparr>"
  using assms unfolding copyMetadata_def ebind_eq_Inr deref_eq_Inr by auto

lemma inferTypeFromE:
  assumes "inferTypeFrom h v r = Inr h'"
  obtains t vv where "lookup (tensors h) r = Some t" "lookup (vals h) v = Some vv"
    "h' = h\<lparr>vals := put (vals h) v (vv\<lparr>v_type := TensorType (t_dtype t) (t_sizes t)\<rparr>)\<rparr>"
  using assms unfolding inferTypeFrom_def ebind_eq_Inr deref_eq_Inr by auto

lemma copyAttributesE:
  assumes "copyAttributes h n rhs = Inr h'"
  obtains rn nd where "lookup (nodes h) rhs = Some rn" "lookup (nodes h) n = Some nd"
    "h' = h\<lparr>nodes := put (nodes h) n (nd\<lparr>n_attrs := n_attrs rn\<rparr>)\<rparr>"
  using assms unfolding copyAttributes_def ebind_eq_Inr deref_eq_Inr by auto

lemma insertBeforeE:
  assumes "insertBefore h n p = Inr h'"
  obtains pn nd b blk where "lookup (nodes h) p = Some pn" "lookup (nodes h) n = Some nd"
    "n_owning_block pn = Some b" "lookup (blocks h) b = Some blk" "p \<in> set (b_nodes blk)"
    "n_owning_block nd = None"
    "h' = h\<lparr>nodes := put (nodes h) n (nd\<lparr>n_owning_block := Some b\<rparr>),
            blocks := put (blocks h) b (blk\<lparr>b_nodes := insert_before n p (b_nodes blk)\<rparr>)\<rparr>"
  using assms unfolding insertBefore_def
  by (auto simp: ebind_eq_Inr deref_eq_Inr split: option.splits if_splits)

lemma addInputE:
  assumes "addInput h n v = Inr h'"
  obtains nd vv where "lookup (nodes h) n = Some nd" "lookup (vals h) v = Some vv"
    "h' = h\<lparr>vals := put (vals h) v (vv\<lparr>v_uses := v_uses vv @ [(n, length (n_inputs nd))]\<rparr>),
            nodes := put (nodes h) n (nd\<lparr>n_inputs := n_inputs nd @ [v]\<rparr>)\<rparr>"
  using assms unfolding addInput_Inr by auto

lemma Block_addInputE:
  assumes "Block_addInput h b = Inr (h', u)"
  obtains blk pd where "lookup (blocks h) b = Some blk" "lookup (nodes h) (b_param blk) = Some pd"
    "u = fresh (vals h)"
    "h' = h\<lparr>nodes := put (nodes h) (b_param blk) (pd\<lparr>n_outputs := n_outputs pd @ [fresh (vals h)]\<rparr>),
            vals := alloc (vals h)
              \<lparr>v_node = b_param blk, v_offset = length (n_outputs pd), v_name = None, v_uses = [],
               v_type = DynamicTensorType\<rparr>\<rparr>"
  using assms unfolding Block_addInput_def ebind_eq_Inr deref_eq_Inr addOutput_Inr by auto

lemma place_kept_vals [simp]: "place (h\<lparr>vals := x\<rparr>) n i v = place h n i v"
  by (simp add: place_def)

lemma place_kept_blocks [simp]: "place (h\<lparr>blocks := x\<rparr>) n i v = place h n i v"
  by (simp add: place_def)

lemma used_kept_nodes [simp]: "used (h\<lparr>nodes := x\<rparr>) v n i = used h v n i"
  by (simp add: used_def)

lemma used_kept_blocks [simp]: "used (h\<lparr>blocks := x\<rparr>) v n i = used h v n i"
  by (simp add: used_def)

subsection \<open>Inputs in place and nodes kept by the primitives\<close>

lemma place_create: "create h k 1 = (h', n) \<Longrightarrow> place h m i x \<Longrightarrow> place h' m i x"
  unfolding create_1 by (auto simp: place_def split: option.splits if_splits)

lemma place_copyMetadata: "copyMetadata h a b = Inr h' \<Longrightarrow> place h m i x \<Longrightarrow> place h' m i x"
  by (erule copyMetadataE) simp

lemma place_inferTypeFrom: "inferTypeFrom h a b = Inr h' \<Longrightarrow> place h m i x \<Longrightarrow> place h' m i x"
  by (erule inferTypeFromE) simp

lemma place_copyAttributes: "copyAttributes h a b = Inr h' \<Longrightarrow> place h m i x \<Longrightarrow> place h' m i x"
  by (erule copyAttributesE) (auto simp: place_def split: option.splits)

lemma place_insertBefore: "insertBefore h a b = Inr h' \<Longrightarrow> place h m i x \<Longrightarrow> place h' m i x"
  by (erule insertBeforeE) (auto simp: place_def split: option.splits)

lemma place_addInput: "addInput h a v = Inr h' \<Longrightarrow> place h m i x \<Longrightarrow> place h' m i x"
  by (erule addInputE) (auto simp: place_def nth_append split: option.splits)

lemma place_Block_addInput: "Block_addInput h b = Inr (h', u) \<Longrightarrow> place h m i x \<Longrightarrow> place h' m i x"
  by (erule Block_addInputE) (auto simp: place_def split: option.splits)

lemma place_Graph_addInput: "Graph_addInput h = Inr (h', u) \<Longrightarrow> place h m i x \<Longrightarrow> place h' m i x"
  unfolding Graph_addInput_def by (rule place_Block_addInput)

lemma node_kept_refl [simp]: "node_kept h h n"
  by (simp add: node_kept_def split: option.splits)

lemma node_kept_trans: "node_kept h h' n \<Longrightarrow> node_kept h' h'' n \<Longrightarrow> node_kept h h'' n"
  by (auto simp: node_kept_def split: option.splits)

lemma node_kept_vals [simp]: "node_kept h (h\<lparr>vals := x\<rparr>) n"
  by (simp add: node_kept_def split: option.splits)

lemma node_kept_create: "create h k 1 = (h', n) \<Longrightarrow> node_kept h h' m"
  unfolding create_1 by (auto simp: node_kept_def split: option.splits if_splits)

lemma node_kept_copyMetadata: "copyMetadata h a b = Inr h' \<Longrightarrow> node_kept h h' m"
  by (erule copyMetadataE) simp

lemma node_kept_inferTypeFrom: "inferTypeFrom h a b = Inr h' \<Longrightarrow> node_kept h h' m"
  by (erule inferTypeFromE) simp

lemma node_kept_copyAttributes: "copyAttributes h a b = Inr h' \<Longrightarrow> node_kept h h' m"
  by (erule copyAttributesE) (auto simp: node_kept_def split: option.splits)

lemma node_kept_insertBefore: "insertBefore h a b = Inr h' \<Longrightarrow> m \<noteq> a \<Longrightarrow> node_kept h h' m"
  by (erule insertBeforeE) (auto simp: node_kept_def split: option.splits)

lemma node_kept_addInput: "addInput h a v = Inr h' \<Longrightarrow> node_kept h h' m"
  by (erule addInputE) (auto simp: node_kept_def split: option.splits)

lemma node_kept_Block_addInput: "Block_addInput h b = Inr (h', u) \<Longrightarrow> node_kept h h' m"
  by (erule Block_addInputE) (auto simp: node_kept_def split: option.splits)

lemma node_kept_Graph_addInput: "Graph_addInput h = Inr (h', u) \<Longrightarrow> node_kept h h' m"
  unfolding Graph_addInput_def by (rule node_kept_Block_addInput)

lemma node_kept_upto_inputs:
  assumes "nodes_upto_inputs (nodes h) (nodes h')"
  shows "node_kept h h' m"
proof (cases "lookup (nodes h) m")
  case None then show ?thesis by (simp add: node_kept_def)
next
  case (Some nd)
  from nodes_upto_inputsD(1)[OF assms Some] obtain ins where
    "lookup (nodes h') m = Some (nd\<lparr>n_inputs := ins\<rparr>)" by auto
  then show ?thesis using Some by (simp add: node_kept_def)
qed

lemma node_keptD:
  assumes "node_kept h h' n" "lookup (nodes h) n = Some nd"
  obtains nd' where "lookup (nodes h') n = Some nd'" "n_kind nd' = n_kind nd"
    "n_owning_block nd' = n_owning_block nd" "set (n_outputs nd) \<subseteq> set (n_outputs nd')"
  using assms by (auto simp: node_kept_def split: option.splits)

lemma takeWhile_neq_split:
  "bn \<notin> set pre \<Longrightarrow> takeWhile (\<lambda>x. x \<noteq> bn) (pre @ bn # post) = pre"
  by (induction pre) auto

lemma dropWhile_neq_split:
  "bn \<notin> set pre \<Longrightarrow> dropWhile (\<lambda>x. x \<noteq> bn) (pre @ bn # post) = bn # post"
  by (induction pre) auto

lemma insert_before_split:
  "bn \<notin> set pre \<Longrightarrow> insert_before n bn (pre @ bn # post) = pre @ n # bn # post"
  by (simp add: insert_before_def takeWhile_neq_split dropWhile_neq_split)

lemma removeAll_insert_before:
  "bn \<notin> set pre \<Longrightarrow> bn \<notin> set post \<Longrightarrow> n \<noteq> bn \<Longrightarrow>
   removeAll bn (insert_before n bn (pre @ bn # post)) = pre @ n # post"
  by (simp add: insert_before_split)

subsection \<open>Values kept, inputs traced back, and the success of a destruction\<close>

lemma val_kept_refl [simp]: "val_kept h h x"
  by (simp add: val_kept_def split: option.splits)

lemma val_kept_trans: "val_kept h h' x \<Longrightarrow> val_kept h' h'' x \<Longrightarrow> val_kept h h'' x"
  by (auto simp: val_kept_def split: option.splits)

lemma val_kept_create: "create h k 1 = (h', n) \<Longrightarrow> val_kept h h' x"
  unfolding create_1 by (auto simp: val_kept_def split: option.splits if_splits)

lemma val_kept_copyMetadata: "copyMetadata h a b = Inr h' \<Longrightarrow> val_kept h h' x"
  by (erule copyMetadataE) (auto simp: val_kept_def split: option.splits)

lemma val_kept_inferTypeFrom: "inferTypeFrom h a b = Inr h' \<Longrightarrow> val_kept h h' x"
  by (erule inferTypeFromE) (auto simp: val_kept_def split: option.splits)

lemma val_kept_copyAttributes: "copyAttributes h a b = Inr h' \<Longrightarrow> val_kept h h' x"
  by (erule copyAttributesE) (auto simp: val_kept_def split: option.splits)

lemma val_kept_insertBefore: "insertBefore h a b = Inr h' \<Longrightarrow> val_kept h h' x"
  by (erule insertBeforeE) (auto simp: val_kept_def split: option.splits)

lemma val_kept_addInput: "addInput h a v = Inr h' \<Longrightarrow> val_kept h h' x"
  by (erule addInputE) (auto simp: val_kept_def split: option.splits)

lemma val_kept_Block_addInput: "Block_addInput h b = Inr (h', u) \<Longrightarrow> val_kept h h' x"
  by (erule Block_addInputE) (auto simp: val_kept_def split: option.splits if_splits)

lemma val_kept_Graph_addInput: "Graph_addInput h = Inr (h', u) \<Longrightarrow> val_kept h h' x"
  unfolding Graph_addInput_def by (rule val_kept_Block_addInput)

lemma val_kept_upto_uses:
  assumes "vals_upto_uses (vals h) (vals h')"
  shows "val_kept h h' x"
proof (cases "lookup (vals h) x")
  case None then show ?thesis by (simp add: val_kept_def)
next
  case (Some xv)
  from vals_upto_usesD(1)[OF assms Some] obtain us where
    "lookup (vals h') x = Some (xv\<lparr>v_uses := us\<rparr>)" by auto
  then show ?thesis using Some by (simp add: val_kept_def)
qed

lemma val_keptD:
  assumes "val_kept h h' x" "lookup (vals h) x = Some xv"
  obtains xv' where "lookup (vals h') x = Some xv'" "v_node xv' = v_node xv"
  using assms by (auto simp: val_kept_def split: option.splits)

text \<open>Where an input in place after a primitive comes from.\<close>

lemma place_back_create: "create h k 1 = (h', n) \<Longrightarrow> place h' m i x \<Longrightarrow> place h m i x"
  unfolding create_1 by (auto simp: place_def split: option.splits if_splits)

lemma place_back_copyMetadata: "copyMetadata h a b = Inr h' \<Longrightarrow> place h' m i x \<Longrightarrow> place h m i x"
  by (erule copyMetadataE) simp

lemma place_back_inferTypeFrom: "inferTypeFrom h a b = Inr h' \<Longrightarrow> place h' m i x \<Longrightarrow> place h m i x"
  by (erule inferTypeFromE) simp

lemma place_back_copyAttributes: "copyAttributes h a b = Inr h' \<Longrightarrow> place h' m i x \<Longrightarrow> place h m i x"
  by (erule copyAttributesE) (auto simp: place_def split: option.splits if_splits)

lemma place_back_insertBefore: "insertBefore h a b = Inr h' \<Longrightarrow> place h' m i x \<Longrightarrow> place h m i x"
  by (erule insertBeforeE) (auto simp: place_def split: option.splits if_splits)

lemma place_back_addInput:
  "addInput h a v = Inr h' \<Longrightarrow> place h' m i x \<Longrightarrow> place h m i x \<or> (m = a \<and> x = v)"
  by (erule addInputE) (auto simp: place_def nth_append split: option.splits if_splits)

lemma place_back_Block_addInput:
  "Block_addInput h b = Inr (h', u) \<Longrightarrow> place h' m i x \<Longrightarrow> place h m i x"
  by (erule Block_addInputE) (auto simp: place_def split: option.splits if_splits)

lemma place_back_Graph_addInput:
  "Graph_addInput h = Inr (h', u) \<Longrightarrow> place h' m i x \<Longrightarrow> place h m i x"
  unfolding Graph_addInput_def by (rule place_back_Block_addInput)

lemma replaceUses_place_back:
  assumes "wf_ir h" "old \<noteq> new" "replaceUses k h old new = Inr h'"
    "lookup (vals h) old = Some ov" "length (v_uses ov) = k"
  shows "place h' m i x \<Longrightarrow> (x \<noteq> old \<and> place h m i x) \<or> (x = new \<and> place h m i old)"
  using assms
proof (induction k arbitrary: h ov)
  case 0
  then have h': "h' = h" and e: "v_uses ov = []" by auto
  have "\<not> place h m i old"
    using wf_ir_exact[OF 0(2), of old m i] 0(5) e by (simp add: used_def)
  then show ?case using 0(1) h' by auto
next
  case (Suc k)
  from Suc.prems(4) obtain h1 where
    r1: "replaceFirstUseWith h old new = Inr h1" and r2: "replaceUses k h1 old new = Inr h'"
    by (auto simp: ebind_eq_Inr)
  have wf1: "wf_ir h1" by (rule wf_replaceFirstUseWith[OF Suc.prems(2) r1 Suc.prems(3)])
  obtain a j ov0 where s:
    "lookup (vals h) old = Some ov0" "v_uses ov0 \<noteq> []"
    "lookup (vals h1) old = Some (ov0\<lparr>v_uses := tl (v_uses ov0)\<rparr>)"
    "place h a j old"
    "\<And>m i x. place h1 m i x = (if m = a \<and> i = j then x = new else place h m i x)"
    by (rule replaceFirstUseWith_step[OF Suc.prems(2) r1 Suc.prems(3)]) (rule that)
  have ov0: "ov0 = ov" using s(1) Suc.prems(5) by simp
  have len: "length (v_uses (ov\<lparr>v_uses := tl (v_uses ov)\<rparr>)) = k"
    using Suc.prems(6) by simp
  from Suc.IH[OF Suc.prems(1) wf1 Suc.prems(3) r2 s(3)[unfolded ov0] len]
  have "(x \<noteq> old \<and> place h1 m i x) \<or> (x = new \<and> place h1 m i old)" .
  then show ?case
    unfolding s(5) using s(4) Suc.prems(3) by (auto split: if_splits)
qed

lemma replaceAllUsesWith_place_back:
  assumes "wf_ir h" "old \<noteq> new" "replaceAllUsesWith h old new = Inr h'" "place h' m i x"
  shows "(x \<noteq> old \<and> place h m i x) \<or> (x = new \<and> place h m i old)"
proof -
  from assms(3) obtain ov where ov: "lookup (vals h) old = Some ov"
    and r: "replaceUses (length (v_uses ov)) h old new = Inr h'"
    by (auto simp: replaceAllUsesWith_def ebind_eq_Inr deref_eq_Inr)
  show ?thesis by (rule replaceUses_place_back[OF assms(1,2) r ov refl assms(4)])
qed

text \<open>Destroying succeeds on a node without sub-blocks whose outputs are unused.\<close>

lemma dropInputs_succeeds:
  assumes "uses_exact_from h n k" "lookup (nodes h) n = Some nd" "vs = drop k (n_inputs nd)"
  shows "\<exists>h'. dropInputs h n vs k = Inr h'"
  using assms
proof (induction vs arbitrary: h k)
  case Nil
  then show ?case by simp
next
  case (Cons v vs)
  from Cons.prems(3) have k: "k < length (n_inputs nd)"
    by (metis drop_eq_Nil list.distinct(1) not_le)
  have v: "n_inputs nd ! k = v" and vs: "vs = drop (Suc k) (n_inputs nd)"
    using Cons.prems(3) k by (simp_all add: Cons_nth_drop_Suc[symmetric])
  have ex: "\<And>x m i. used h x m i = (place h m i x \<and> (m = n \<longrightarrow> k \<le> i))"
    and dis: "\<And>x xv. lookup (vals h) x = Some xv \<Longrightarrow> distinct (v_uses xv)"
    using Cons.prems(1) unfolding uses_exact_from_def by auto
  have pk: "\<And>x. place h n k x = (x = v)"
    using Cons.prems(2) k v by (auto simp: place_def)
  have "used h v n k" unfolding ex pk by simp
  then obtain vv where vv: "lookup (vals h) v = Some vv" and mem: "(n, k) \<in> set (v_uses vv)"
    by (auto simp: used_def split: option.splits)
  let ?h1 = "h\<lparr>vals := put (vals h) v (vv\<lparr>v_uses := remove1 (n, k) (v_uses vv)\<rparr>)\<rparr>"
  have dv: "distinct (v_uses vv)" by (rule dis[OF vv])
  have e1: "uses_exact_from ?h1 n (Suc k)"
    unfolding uses_exact_from_def
  proof (intro conjI allI impI)
    fix x m i
    have p: "place ?h1 m i x = place h m i x" by (simp add: place_def)
    have u: "used ?h1 x m i = (used h x m i \<and> \<not> (x = v \<and> m = n \<and> i = k))"
      using vv dv mem ex[of x n k] pk[of x] by (auto simp: used_def set_remove1_eq split: option.splits)
    show "used ?h1 x m i = (place ?h1 m i x \<and> (m = n \<longrightarrow> Suc k \<le> i))"
      unfolding p u ex using pk[of x] by (cases "m = n"; cases "i = k") auto
  next
    fix x xv assume "lookup (vals ?h1) x = Some xv"
    then show "distinct (v_uses xv)"
      using dis dv by (auto split: if_splits)
  qed
  have n1: "lookup (nodes ?h1) n = Some nd" using Cons.prems(2) by simp
  from Cons.IH[OF e1 n1 vs] obtain h' where "dropInputs ?h1 n vs (Suc k) = Inr h'" by blast
  then show ?case using vv mem by simp
qed

lemma destroy_succeeds:
  assumes wf: "wf_ir h" and nd: "lookup (nodes h) n = Some nd"
    and un: "list_all (unused h) (n_outputs nd)" and nb: "n_blocks nd = []"
  shows "\<exists>h'. destroy h n = Inr h'"
proof -
  let ?h0 = "h\<lparr>vals := free_list (vals h) (n_outputs nd)\<rparr>"
  have unD: "\<And>x m i. x \<in> set (n_outputs nd) \<Longrightarrow> \<not> used h x m i"
    using un by (auto simp: list_all_iff unused_def used_def split: option.splits)
  have e0: "uses_exact_from ?h0 n 0"
    unfolding uses_exact_from_def
  proof (intro conjI allI impI)
    fix x m i
    have p: "place ?h0 m i x = place h m i x" by (simp add: place_def)
    have u: "used ?h0 x m i = (x \<notin> set (n_outputs nd) \<and> used h x m i)"
      by (auto simp: used_def lookup_free_list)
    show "used ?h0 x m i = (place ?h0 m i x \<and> (m = n \<longrightarrow> 0 \<le> i))"
      unfolding p u using wf_ir_exact[OF wf, of x m i] unD[of x m i] by auto
  next
    fix x xv assume "lookup (vals ?h0) x = Some xv"
    then show "distinct (v_uses xv)"
      using wf_ir_distinct[OF wf, of x xv] by (auto simp: lookup_free_list split: if_splits)
  qed
  have n0: "lookup (nodes ?h0) n = Some nd" using nd by simp
  from dropInputs_succeeds[OF e0 n0, of "n_inputs nd"] obtain h1 where
    "dropInputs ?h0 n (n_inputs nd) 0 = Inr h1" by auto
  then show ?thesis
    using nd un nb by (simp add: destroy_def Let_def)
qed

subsection \<open>The effect of the rewrite on the graph\<close>

lemma list3_eq:
  "length xs = 3 \<Longrightarrow> xs ! 0 = a \<Longrightarrow> xs ! 1 = b \<Longrightarrow> xs ! 2 = c \<Longrightarrow> xs = [a, b, c]"
  by (auto simp: length_Suc_conv numeral_3_eq_3 numeral_2_eq_2)

lemma place_free:
  "nodes h' = free (nodes h) d \<Longrightarrow> n \<noteq> d \<Longrightarrow> place h' n i x = place h n i x"
  by (simp add: place_def)

lemma rewrite_conv_bn_effect:
  fixes h0 :: "'a heap"
  assumes wf: "wf_ir h0" and r: "rewrite_conv_bn b c bnN w bi h0 m0 = Inr (h', m')"
  obtains cn bn bov bb blk rblk bblk h11 h12 where
    "lookup (nodes h0) c = Some cn" "lookup (nodes h0) bnN = Some bn"
    "n_inputs cn \<noteq> []" "n_outputs bn \<noteq> []"
    "lookup (vals h0) (n_outputs bn ! 0) = Some bov"
    "n_owning_block bn = Some bb" "lookup (blocks h0) bb = Some blk" "bnN \<in> set (b_nodes blk)"
    "lookup (blocks h0) (root_block h0) = Some rblk" "lookup (blocks h0) b = Some bblk"
    "wf_ir h'"
    "lookup (nodes h') bnN = None" "lookup (vals h') (n_outputs bn ! 0) = None"
    "\<And>n i. place h0 n i (n_outputs bn ! 0) \<Longrightarrow> n \<noteq> bnN \<Longrightarrow> place h' n i (fresh (vals h0))"
    "\<And>n i x. place h0 n i x \<Longrightarrow> n \<noteq> bnN \<Longrightarrow> x \<noteq> n_outputs bn ! 0 \<Longrightarrow> place h' n i x"
    "lookup (blocks h') bb =
       Some (blk\<lparr>b_nodes := removeAll bnN (insert_before (fresh (nodes h0)) bnN (b_nodes blk))\<rparr>)"
    "\<exists>us. lookup (vals h') (fresh (vals h0)) =
       Some \<lparr>v_node = fresh (nodes h0), v_offset = 0, v_name = None, v_uses = us,
             v_type = v_type bov\<rparr>"
    "b_param rblk \<noteq> fresh (nodes h0) \<Longrightarrow> b_param bblk \<noteq> fresh (nodes h0) \<Longrightarrow>
     n_inputs cn ! 0 \<noteq> n_outputs bn ! 0 \<Longrightarrow>
       lookup (nodes h') (fresh (nodes h0)) =
         Some \<lparr>n_kind = onnx_Conv,
               n_inputs = [n_inputs cn ! 0, Suc (fresh (vals h0)), Suc (Suc (fresh (vals h0)))],
               n_outputs = [fresh (vals h0)], n_attrs = n_attrs cn, n_blocks = [],
               n_owning_block = Some bb\<rparr>"
    "\<exists>nw nb. m' = map_insert (map_insert m0 (Suc (fresh (vals h0))) (nw, TensorIValue w))
                    (Suc (Suc (fresh (vals h0)))) (nb, TensorIValue bi)"
    "tensors h' = tensors h0" "root_block h' = root_block h0"
    "\<exists>nn. lookup (nodes h') (fresh (nodes h0)) = Some nn \<and> n_kind nn = onnx_Conv \<and>
          fresh (vals h0) \<in> set (n_outputs nn)"
    "wire_new_conv b c bnN w bi h0 m0 = Inr (h11, m')"
    "replaceAllUsesWith h11 (n_outputs bn ! 0) (fresh (vals h0)) = Inr h12"
    "destroy h12 bnN = Inr h'"
    "b_param rblk \<noteq> fresh (nodes h0) \<Longrightarrow> b_param bblk \<noteq> fresh (nodes h0) \<Longrightarrow>
       lookup (nodes h11) (fresh (nodes h0)) =
         Some \<lparr>n_kind = onnx_Conv,
               n_inputs = [n_inputs cn ! 0, Suc (fresh (vals h0)), Suc (Suc (fresh (vals h0)))],
               n_outputs = [fresh (vals h0)], n_attrs = n_attrs cn, n_blocks = [],
               n_owning_block = Some bb\<rparr>"
    "lookup (vals h11) (fresh (vals h0)) =
       Some \<lparr>v_node = fresh (nodes h0), v_offset = 0, v_name = None, v_uses = [],
             v_type = v_type bov\<rparr>"
    "lookup (blocks h11) bb =
       Some (blk\<lparr>b_nodes := insert_before (fresh (nodes h0)) bnN (b_nodes blk)\<rparr>)"
    "m' = map_insert (map_insert m0 (Suc (fresh (vals h0)))
                        (string_of_nat (Suc (fresh (vals h0))), TensorIValue w))
            (Suc (Suc (fresh (vals h0))))
            (string_of_nat (Suc (Suc (fresh (vals h0)))), TensorIValue bi)"
    "\<And>n i x. place h' n i x \<Longrightarrow>
       n \<noteq> bnN \<and>
       (x \<noteq> n_outputs bn ! 0 \<and> place h0 n i x \<or>
        x = fresh (vals h0) \<and> place h0 n i (n_outputs bn ! 0) \<or>
        n = fresh (nodes h0) \<and>
          x \<in> {n_inputs cn ! 0, fresh (vals h0), Suc (fresh (vals h0)), Suc (Suc (fresh (vals h0)))})"
    "\<And>b'. b' \<noteq> bb \<Longrightarrow> lookup (blocks h') b' = lookup (blocks h0) b'"
    "\<And>x xv. lookup (vals h0) x = Some xv \<Longrightarrow> v_node xv \<noteq> bnN \<Longrightarrow>
       \<exists>xv'. lookup (vals h') x = Some xv' \<and> v_node xv' = v_node xv"
    "b_param rblk \<noteq> c \<Longrightarrow> b_param bblk \<noteq> c \<Longrightarrow> c \<noteq> bnN \<Longrightarrow>
       \<exists>ins. lookup (nodes h') c = Some (cn\<lparr>n_inputs := ins\<rparr>)"
proof -
  let ?N = "fresh (nodes h0)" and ?U = "fresh (vals h0)"
  let ?NN0 = "\<lparr>n_kind = onnx_Conv, n_inputs = [], n_outputs = [?U], n_attrs = [],
            n_blocks = [], n_owning_block = None\<rparr> :: 'a Node"
  let ?UV0 = "\<lparr>v_node = ?N, v_offset = 0, v_name = None, v_uses = [],
            v_type = DynamicTensorType\<rparr>"
  obtain cn bn h1 newConv nn newOut bnOut h2 h3 h4 in0 h5 h6 newConvW vw h7 h8 h9 newConvB vb
    h10 h11 h12
    where cn: "lookup (nodes h0) c = Some cn" and bn: "lookup (nodes h0) bnN = Some bn"
      and s1: "create h0 onnx_Conv 1 = (h1, newConv)" and s2: "lookup (nodes h1) newConv = Some nn"
      and s3: "at_index (n_outputs nn) 0 = Inr newOut" and s4: "at_index (n_outputs bn) 0 = Inr bnOut"
      and s5: "copyMetadata h1 newOut bnOut = Inr h2" and s6: "copyAttributes h2 newConv c = Inr h3"
      and s7: "insertBefore h3 newConv bnN = Inr h4" and s8: "at_index (n_inputs cn) 0 = Inr in0"
      and s9: "addInput h4 newConv in0 = Inr h5" and s10: "Graph_addInput h5 = Inr (h6, newConvW)"
      and s11: "lookup (vals h6) newConvW = Some vw" and s12: "inferTypeFrom h6 newConvW w = Inr h7"
      and s13: "addInput h7 newConv newConvW = Inr h8" and s14: "Block_addInput h8 b = Inr (h9, newConvB)"
      and s15: "lookup (vals h9) newConvB = Some vb" and s16: "inferTypeFrom h9 newConvB bi = Inr h10"
      and s17: "addInput h10 newConv newConvB = Inr h11"
      and s18: "replaceAllUsesWith h11 bnOut newOut = Inr h12"
      and s19: "destroy h12 bnN = Inr h'"
      and s20: "m' = map_insert (map_insert m0 newConvW (debugName newConvW vw, TensorIValue w))
            newConvB (debugName newConvB vb, TensorIValue bi)"
    by (rule rewrite_conv_bnE[OF r])
  have h1: "h1 = h0\<lparr>nodes := alloc (nodes h0) ?NN0, vals := alloc (vals h0) ?UV0\<rparr>"
    and nc: "newConv = ?N"
    using s1 unfolding create_1 by auto
  have nn: "nn = ?NN0" using s2 by (simp add: h1 nc)
  have no: "newOut = ?U" using s3 by (simp add: nn at_index_def)
  have bo: "n_outputs bn \<noteq> []" "bnOut = n_outputs bn ! 0"
    using s4 by (auto simp: at_index_def split: if_splits)
  obtain bov where bov: "lookup (vals h0) bnOut = Some bov" "v_node bov = bnN"
    using wf_ir_output[OF wf bn, of bnOut] bo by auto
  have lt: "c < ?N" "bnN < ?N" "bnOut < ?U"
    using cn bn bov by (auto dest: lookup_Some_less)
  have i0: "n_inputs cn \<noteq> []" "in0 = n_inputs cn ! 0"
    using s8 by (auto simp: at_index_def split: if_splits)
  obtain iv where iv: "lookup (vals h0) in0 = Some iv"
    using input_live[OF wf cn, of 0] i0 by auto
  have ilt: "in0 < ?U" using iv by (auto dest: lookup_Some_less)
  note s5' = s5[unfolded no] and s6' = s6[unfolded nc] and s7' = s7[unfolded nc]
    and s9' = s9[unfolded nc] and s13' = s13[unfolded nc] and s17' = s17[unfolded nc]
    and s18' = s18[unfolded no]
  \<comment> \<open>the states, one after the other\<close>
  obtain fv tv where e2: "lookup (vals h1) bnOut = Some fv" "lookup (vals h1) ?U = Some tv"
    "h2 = h1\<lparr>vals := put (vals h1) ?U (tv\<lparr>v_type := v_type fv\<rparr>)\<rparr>"
    by (rule copyMetadataE[OF s5'])
  have h2: "h2 = h1\<lparr>vals := put (vals h1) ?U (?UV0\<lparr>v_type := v_type bov\<rparr>)\<rparr>"
    using e2 lt bov by (auto simp: h1)
  obtain rn3 nd3 where e3: "lookup (nodes h2) c = Some rn3" "lookup (nodes h2) ?N = Some nd3"
    "h3 = h2\<lparr>nodes := put (nodes h2) ?N (nd3\<lparr>n_attrs := n_attrs rn3\<rparr>)\<rparr>"
    by (rule copyAttributesE[OF s6'])
  have N3: "lookup (nodes h3) ?N = Some (?NN0\<lparr>n_attrs := n_attrs cn\<rparr>)"
    and f3: "vals h3 = vals h2" "blocks h3 = blocks h0" "root_block h3 = root_block h0"
       "lookup (nodes h3) bnN = Some bn"
    using e3 lt cn bn by (auto simp: h1 h2)
  obtain pn4 nd4 bb blk where e4: "lookup (nodes h3) bnN = Some pn4" "lookup (nodes h3) ?N = Some nd4"
    "n_owning_block pn4 = Some bb" "lookup (blocks h3) bb = Some blk" "bnN \<in> set (b_nodes blk)"
    "h4 = h3\<lparr>nodes := put (nodes h3) ?N (nd4\<lparr>n_owning_block := Some bb\<rparr>),
            blocks := put (blocks h3) bb (blk\<lparr>b_nodes := insert_before ?N bnN (b_nodes blk)\<rparr>)\<rparr>"
    by (rule insertBeforeE[OF s7']) (rule that)
  let ?blocks = "put (blocks h0) bb (blk\<lparr>b_nodes := insert_before ?N bnN (b_nodes blk)\<rparr>)"
  have bb: "n_owning_block bn = Some bb" "lookup (blocks h0) bb = Some blk"
      "bnN \<in> set (b_nodes blk)"
    and h4: "h4 = h3\<lparr>nodes := put (nodes h3) ?N (?NN0\<lparr>n_attrs := n_attrs cn, n_owning_block := Some bb\<rparr>),
            blocks := ?blocks\<rparr>"
    using e4 N3 f3 by auto
  have U4: "lookup (vals h4) ?U = Some (?UV0\<lparr>v_type := v_type bov\<rparr>)"
    and F4: "fresh (vals h4) = Suc ?U" and I4: "lookup (vals h4) in0 = Some iv"
    using ilt iv by (simp_all add: h4 f3 h2 h1)
  let ?N5 = "\<lparr>n_kind = onnx_Conv, n_inputs = [in0], n_outputs = [?U], n_attrs = n_attrs cn,
            n_blocks = [], n_owning_block = Some bb\<rparr> :: 'a Node"
  obtain nd5 vv5 where e5: "lookup (nodes h4) ?N = Some nd5" "lookup (vals h4) in0 = Some vv5"
    "h5 = h4\<lparr>vals := put (vals h4) in0 (vv5\<lparr>v_uses := v_uses vv5 @ [(?N, length (n_inputs nd5))]\<rparr>),
            nodes := put (nodes h4) ?N (nd5\<lparr>n_inputs := n_inputs nd5 @ [in0]\<rparr>)\<rparr>"
    by (rule addInputE[OF s9'])
  have h5: "h5 = h4\<lparr>vals := put (vals h4) in0 (iv\<lparr>v_uses := v_uses iv @ [(?N, 0)]\<rparr>),
            nodes := put (nodes h4) ?N ?N5\<rparr>"
    using e5 I4 by (auto simp: h4)
  have U5: "lookup (vals h5) ?U = Some (?UV0\<lparr>v_type := v_type bov\<rparr>)"
    and F5: "fresh (vals h5) = Suc ?U" and B5: "blocks h5 = ?blocks"
    and R5: "root_block h5 = root_block h0"
    and N5: "lookup (nodes h5) ?N = Some ?N5"
    using U4 F4 ilt by (simp_all add: h5 h4 f3 max_def)
  obtain rblk' pd6 where e6: "lookup (blocks h5) (root_block h5) = Some rblk'"
    "lookup (nodes h5) (b_param rblk') = Some pd6" "newConvW = fresh (vals h5)"
    "h6 = h5\<lparr>nodes := put (nodes h5) (b_param rblk') (pd6\<lparr>n_outputs := n_outputs pd6 @ [fresh (vals h5)]\<rparr>),
            vals := alloc (vals h5)
              \<lparr>v_node = b_param rblk', v_offset = length (n_outputs pd6), v_name = None, v_uses = [],
               v_type = DynamicTensorType\<rparr>\<rparr>"
    by (rule Block_addInputE[OF s10[unfolded Graph_addInput_def]])
  have "\<exists>rblk. lookup (blocks h0) (root_block h0) = Some rblk \<and> b_param rblk = b_param rblk'"
    using e6(1) bb(2) unfolding B5 R5 by (auto split: if_splits)
  then obtain rblk where rblk: "lookup (blocks h0) (root_block h0) = Some rblk"
    and rp: "b_param rblk = b_param rblk'" by auto
  have W: "newConvW = Suc ?U"
    and U6: "lookup (vals h6) ?U = Some (?UV0\<lparr>v_type := v_type bov\<rparr>)"
    and F6: "fresh (vals h6) = Suc (Suc ?U)" and B6: "blocks h6 = ?blocks"
    and R6: "root_block h6 = root_block h0"
    using e6 U5 F5 B5 R5 by auto
  have N6: "lookup (nodes h6) ?N = Some ?N5" if "b_param rblk \<noteq> ?N"
    using that e6 rp N5 by auto
  obtain t7 vv7 where t7: "lookup (tensors h6) w = Some t7" and e7: "lookup (vals h6) (Suc ?U) = Some vv7"
    "h7 = h6\<lparr>vals := put (vals h6) (Suc ?U) (vv7\<lparr>v_type := TensorType (t_dtype t7) (t_sizes t7)\<rparr>)\<rparr>"
    by (rule inferTypeFromE[OF s12[unfolded W]])
  obtain nd8 vv8 where e8: "lookup (nodes h7) ?N = Some nd8" "lookup (vals h7) (Suc ?U) = Some vv8"
    "h8 = h7\<lparr>vals := put (vals h7) (Suc ?U) (vv8\<lparr>v_uses := v_uses vv8 @ [(?N, length (n_inputs nd8))]\<rparr>),
            nodes := put (nodes h7) ?N (nd8\<lparr>n_inputs := n_inputs nd8 @ [Suc ?U]\<rparr>)\<rparr>"
    by (rule addInputE[OF s13'[unfolded W]])
  have U8: "lookup (vals h8) ?U = Some (?UV0\<lparr>v_type := v_type bov\<rparr>)"
    and F8: "fresh (vals h8) = Suc (Suc ?U)" and B8: "blocks h8 = ?blocks"
    and R8: "root_block h8 = root_block h0"
    using e7 e8 U6 F6 B6 R6 by auto
  have N8: "lookup (nodes h8) ?N = Some (?N5\<lparr>n_inputs := [in0, Suc ?U]\<rparr>)" if "b_param rblk \<noteq> ?N"
    using N6[OF that] e7 e8 by auto
  obtain bblk' pd9 where e9: "lookup (blocks h8) b = Some bblk'"
    "lookup (nodes h8) (b_param bblk') = Some pd9" "newConvB = fresh (vals h8)"
    "h9 = h8\<lparr>nodes := put (nodes h8) (b_param bblk') (pd9\<lparr>n_outputs := n_outputs pd9 @ [fresh (vals h8)]\<rparr>),
            vals := alloc (vals h8)
              \<lparr>v_node = b_param bblk', v_offset = length (n_outputs pd9), v_name = None, v_uses = [],
               v_type = DynamicTensorType\<rparr>\<rparr>"
    by (rule Block_addInputE[OF s14])
  have "\<exists>bblk. lookup (blocks h0) b = Some bblk \<and> b_param bblk = b_param bblk'"
    using e9(1) bb(2) unfolding B8 by (auto split: if_splits)
  then obtain bblk where bblk: "lookup (blocks h0) b = Some bblk"
    and bp: "b_param bblk = b_param bblk'" by auto
  have B: "newConvB = Suc (Suc ?U)"
    and U9: "lookup (vals h9) ?U = Some (?UV0\<lparr>v_type := v_type bov\<rparr>)"
    and F9: "fresh (vals h9) = Suc (Suc (Suc ?U))" and B9: "blocks h9 = ?blocks"
    and R9: "root_block h9 = root_block h0"
    using e9 U8 F8 B8 R8 by auto
  have N9: "lookup (nodes h9) ?N = Some (?N5\<lparr>n_inputs := [in0, Suc ?U]\<rparr>)"
    if "b_param rblk \<noteq> ?N" "b_param bblk \<noteq> ?N"
    using N8[OF that(1)] that(2) e9 bp by auto
  obtain t10 vv10 where t10: "lookup (tensors h9) bi = Some t10" and e10: "lookup (vals h9) (Suc (Suc ?U)) = Some vv10"
    "h10 = h9\<lparr>vals := put (vals h9) (Suc (Suc ?U)) (vv10\<lparr>v_type := TensorType (t_dtype t10) (t_sizes t10)\<rparr>)\<rparr>"
    by (rule inferTypeFromE[OF s16[unfolded B]])
  obtain nd11 vv11 where e11: "lookup (nodes h10) ?N = Some nd11"
    "lookup (vals h10) (Suc (Suc ?U)) = Some vv11"
    "h11 = h10\<lparr>vals := put (vals h10) (Suc (Suc ?U)) (vv11\<lparr>v_uses := v_uses vv11 @ [(?N, length (n_inputs nd11))]\<rparr>),
            nodes := put (nodes h10) ?N (nd11\<lparr>n_inputs := n_inputs nd11 @ [Suc (Suc ?U)]\<rparr>)\<rparr>"
    by (rule addInputE[OF s17'[unfolded B]])
  have U11: "lookup (vals h11) ?U = Some (?UV0\<lparr>v_type := v_type bov\<rparr>)"
    and B11: "blocks h11 = ?blocks" and R11: "root_block h11 = root_block h0"
    using e10 e11 U9 F9 B9 R9 by auto
  let ?N11 = "\<lparr>n_kind = onnx_Conv, n_inputs = [in0, Suc ?U, Suc (Suc ?U)], n_outputs = [?U],
            n_attrs = n_attrs cn, n_blocks = [], n_owning_block = Some bb\<rparr> :: 'a Node"
  have N11: "lookup (nodes h11) ?N = Some ?N11"
    if "b_param rblk \<noteq> ?N" "b_param bblk \<noteq> ?N"
    using N9[OF that] e10 e11 by auto
  have wf11: "wf_ir h11"
    by (intro wf_addInput[OF _ s17] wf_inferTypeFrom[OF _ s16] wf_Block_addInput[OF _ s14]
          wf_addInput[OF _ s13] wf_inferTypeFrom[OF _ s12] wf_Graph_addInput[OF _ s10]
          wf_addInput[OF _ s9] wf_insertBefore[OF _ s7] wf_copyAttributes[OF _ s6]
          wf_copyMetadata[OF _ s5] wf_create[OF wf s1])
  have P11: "place h11 n i x" if "place h0 n i x" for n i x
    by (intro place_addInput[OF s17] place_inferTypeFrom[OF s16] place_Block_addInput[OF s14]
          place_addInput[OF s13] place_inferTypeFrom[OF s12] place_Graph_addInput[OF s10]
          place_addInput[OF s9] place_insertBefore[OF s7] place_copyAttributes[OF s6]
          place_copyMetadata[OF s5] place_create[OF s1] that)
  have bnc: "bnN \<noteq> newConv" using lt nc by simp
  note k1 = node_kept_create[OF s1, of bnN]
  note k2 = node_kept_trans[OF k1 node_kept_copyMetadata[OF s5]]
  note k3 = node_kept_trans[OF k2 node_kept_copyAttributes[OF s6]]
  note k4 = node_kept_trans[OF k3 node_kept_insertBefore[OF s7 bnc]]
  note k5 = node_kept_trans[OF k4 node_kept_addInput[OF s9]]
  note k6 = node_kept_trans[OF k5 node_kept_Graph_addInput[OF s10]]
  note k7 = node_kept_trans[OF k6 node_kept_inferTypeFrom[OF s12]]
  note k8 = node_kept_trans[OF k7 node_kept_addInput[OF s13]]
  note k9 = node_kept_trans[OF k8 node_kept_Block_addInput[OF s14]]
  note k10 = node_kept_trans[OF k9 node_kept_inferTypeFrom[OF s16]]
  note k11 = node_kept_trans[OF k10 node_kept_addInput[OF s17]]
  have T11: "tensors h11 = tensors h0"
    using e2(3) e3(3) e4(6) e5(3) e6(4) e7(2) e8(3) e9(4) e10(2) e11(3) by (simp add: h1)
  have ne: "bnOut \<noteq> ?U" using lt by simp
  from replaceAllUsesWith_effect[OF wf11 ne s18']
  have e12: "wf_ir h12" "\<And>m i x. x \<noteq> bnOut \<Longrightarrow> place h11 m i x \<Longrightarrow> place h12 m i x"
    "\<And>m i. place h11 m i bnOut \<Longrightarrow> place h12 m i ?U"
    "nodes_upto_inputs (nodes h11) (nodes h12)" "vals_upto_uses (vals h11) (vals h12)"
    "blocks h12 = blocks h11" "tensors h12 = tensors h11" "root_block h12 = root_block h11"
    by blast+
  note k12 = node_kept_trans[OF k11 node_kept_upto_inputs[OF e12(4)]]
  obtain bn12 where bn12: "lookup (nodes h12) bnN = Some bn12" "n_owning_block bn12 = Some bb"
    "set (n_outputs bn) \<subseteq> set (n_outputs bn12)"
    using node_keptD[OF k12 bn] bb(1) by metis
  from destroy_effect[OF e12(1) s19] bn12(1,2)
  have d: "nodes h' = free (nodes h12) bnN"
    "blocks h' = blocks (removeFromList h12 bnN (Some bb))"
    "vals_upto_uses (free_list (vals h12) (n_outputs bn12)) (vals h')" "wf_ir h'"
    "tensors h' = tensors h12" "root_block h' = root_block h12"
    by auto
  have c12: "lookup (nodes h') bnN = None" by (simp add: d(1))
  have "bnOut \<in> set (n_outputs bn12)" using bn12(3) bo by auto
  then have "lookup (free_list (vals h12) (n_outputs bn12)) bnOut = None" by simp
  then have c13: "lookup (vals h') bnOut = None" by (rule vals_upto_usesD(2)[OF d(3)])
  have c14: "place h' n i ?U" if "place h0 n i bnOut" "n \<noteq> bnN" for n i
    using e12(3)[OF P11[OF that(1)]] place_free[OF d(1) that(2)] by simp
  have c15: "place h' n i x" if "place h0 n i x" "n \<noteq> bnN" "x \<noteq> bnOut" for n i x
    using e12(2)[OF that(3) P11[OF that(1)]] place_free[OF d(1) that(2)] by simp
  have "lookup (blocks h12) bb = Some (blk\<lparr>b_nodes := insert_before ?N bnN (b_nodes blk)\<rparr>)"
    by (simp add: e12(6) B11)
  then have c16: "lookup (blocks h') bb =
       Some (blk\<lparr>b_nodes := removeAll bnN (insert_before ?N bnN (b_nodes blk))\<rparr>)"
    by (simp add: d(2) removeFromList_def)
  from vals_upto_usesD(1)[OF e12(5) U11] obtain us where
    U12: "lookup (vals h12) ?U = Some (?UV0\<lparr>v_type := v_type bov, v_uses := us\<rparr>)" by auto
  have "?U \<notin> set (n_outputs bn12)"
  proof
    assume "?U \<in> set (n_outputs bn12)"
    from wf_ir_output[OF e12(1) bn12(1) this] U12 lt(2) show False by auto
  qed
  then have "lookup (free_list (vals h12) (n_outputs bn12)) ?U =
      Some (?UV0\<lparr>v_type := v_type bov, v_uses := us\<rparr>)"
    using U12 by simp
  from vals_upto_usesD(1)[OF d(3) this]
  have c17: "\<exists>us. lookup (vals h') ?U =
       Some \<lparr>v_node = ?N, v_offset = 0, v_name = None, v_uses = us, v_type = v_type bov\<rparr>"
    by auto
  have c18: "lookup (nodes h') ?N = Some ?N11"
    if "b_param rblk \<noteq> ?N" "b_param bblk \<noteq> ?N" "in0 \<noteq> bnOut"
  proof -
    note n11 = N11[OF that(1,2)]
    from nodes_upto_inputsD(1)[OF e12(4) n11] obtain ins where
      ins: "length ins = 3" "lookup (nodes h12) ?N = Some (?N11\<lparr>n_inputs := ins\<rparr>)"
      by (auto simp: numeral_3_eq_3)
    have "place h11 ?N 0 in0" "place h11 ?N 1 (Suc ?U)" "place h11 ?N 2 (Suc (Suc ?U))"
      using n11 by (simp_all add: place_def)
    then have "place h12 ?N 0 in0" "place h12 ?N 1 (Suc ?U)" "place h12 ?N 2 (Suc (Suc ?U))"
      using that(3) lt(3) by (auto intro!: e12(2))
    then have "ins ! 0 = in0" "ins ! 1 = Suc ?U" "ins ! 2 = Suc (Suc ?U)"
      using ins(2) by (simp_all add: place_def)
    then have "ins = [in0, Suc ?U, Suc (Suc ?U)]" using ins(1) by (intro list3_eq)
    then show ?thesis using ins(2) lt(2) by (simp add: d(1))
  qed
  have c19: "\<exists>nw nb. m' = map_insert (map_insert m0 (Suc ?U) (nw, TensorIValue w))
                    (Suc (Suc ?U)) (nb, TensorIValue bi)"
    using s20 unfolding W B by blast
  have N4: "lookup (nodes h4) ?N = Some (?NN0\<lparr>n_attrs := n_attrs cn, n_owning_block := Some bb\<rparr>)"
    by (simp add: h4)
  note q5 = node_kept_addInput[OF s9, of ?N]
  note q6 = node_kept_trans[OF q5 node_kept_Graph_addInput[OF s10]]
  note q7 = node_kept_trans[OF q6 node_kept_inferTypeFrom[OF s12]]
  note q8 = node_kept_trans[OF q7 node_kept_addInput[OF s13]]
  note q9 = node_kept_trans[OF q8 node_kept_Block_addInput[OF s14]]
  note q10 = node_kept_trans[OF q9 node_kept_inferTypeFrom[OF s16]]
  note q11 = node_kept_trans[OF q10 node_kept_addInput[OF s17]]
  note q12 = node_kept_trans[OF q11 node_kept_upto_inputs[OF e12(4)]]
  obtain nn12 where "lookup (nodes h12) ?N = Some nn12" "n_kind nn12 = onnx_Conv"
    "?U \<in> set (n_outputs nn12)"
    by (rule node_keptD[OF q12 N4]) auto
  then have c20: "\<exists>nn. lookup (nodes h') ?N = Some nn \<and> n_kind nn = onnx_Conv \<and>
          ?U \<in> set (n_outputs nn)"
    using lt(2) by (simp add: d(1))
  have c21: "tensors h' = tensors h0" "root_block h' = root_block h0"
    by (simp_all add: d e12 T11 R11)
  have w1: "wire_new_conv b c bnN w bi h0 m0 = Inr (h11, m')"
    unfolding wire_new_conv_def
    using cn bn s1 s2 s3 s4 s5 s6 s7 s8 s9 s10 s11 s12 s13 s14 s15 s16 s17 s20
    by (simp add: Let_def)
  have w4: "lookup (nodes h11) ?N = Some ?N11"
    if "b_param rblk \<noteq> ?N" "b_param bblk \<noteq> ?N"
    by (rule N11[OF that])
  have w5: "lookup (vals h11) ?U =
       Some \<lparr>v_node = ?N, v_offset = 0, v_name = None, v_uses = [], v_type = v_type bov\<rparr>"
    using U11 by simp
  have w6: "lookup (blocks h11) bb =
       Some (blk\<lparr>b_nodes := insert_before ?N bnN (b_nodes blk)\<rparr>)"
    by (simp add: B11)
  have vw: "debugName newConvW vw = string_of_nat (Suc ?U)"
    using s11 e6(3,4) F5 by (auto simp: debugName_def simp del: string_of_nat.simps)
  have vb: "debugName newConvB vb = string_of_nat (Suc (Suc ?U))"
    using s15 e9(3,4) F8 by (auto simp: debugName_def simp del: string_of_nat.simps)
  have w7: "m' = map_insert (map_insert m0 (Suc ?U) (string_of_nat (Suc ?U), TensorIValue w))
            (Suc (Suc ?U)) (string_of_nat (Suc (Suc ?U)), TensorIValue bi)"
    using s20 vw vb unfolding W B by (simp del: string_of_nat.simps)
  have back11: "place h0 n i x \<or> (n = ?N \<and> x \<in> {in0, Suc ?U, Suc (Suc ?U)})"
    if "place h11 n i x" for n i x
  proof -
    from place_back_addInput[OF s17' that]
    have "place h10 n i x \<or> (n = ?N \<and> x = newConvB)" .
    then have "place h8 n i x \<or> (n = ?N \<and> x = newConvB)"
      by (auto dest!: place_back_inferTypeFrom[OF s16] place_back_Block_addInput[OF s14])
    then have "place h7 n i x \<or> (n = ?N \<and> x \<in> {newConvW, newConvB})"
      by (auto dest!: place_back_addInput[OF s13'])
    then have "place h5 n i x \<or> (n = ?N \<and> x \<in> {newConvW, newConvB})"
      by (auto dest!: place_back_inferTypeFrom[OF s12] place_back_Graph_addInput[OF s10])
    then have "place h4 n i x \<or> (n = ?N \<and> x \<in> {in0, newConvW, newConvB})"
      by (auto dest!: place_back_addInput[OF s9'])
    then have "place h0 n i x \<or> (n = ?N \<and> x \<in> {in0, newConvW, newConvB})"
      by (auto dest!: place_back_insertBefore[OF s7] place_back_copyAttributes[OF s6]
            place_back_copyMetadata[OF s5] place_back_create[OF s1])
    then show ?thesis unfolding W B by simp
  qed
  have r1: "n \<noteq> bnN \<and>
       (x \<noteq> bnOut \<and> place h0 n i x \<or> x = ?U \<and> place h0 n i bnOut \<or>
        n = ?N \<and> x \<in> {in0, ?U, Suc ?U, Suc (Suc ?U)})"
    if p: "place h' n i x" for n i x
  proof -
    have nb: "n \<noteq> bnN" using p by (auto simp: place_def d(1) split: option.splits if_splits)
    have p12: "place h12 n i x" using p place_free[OF d(1) nb] by simp
    from replaceAllUsesWith_place_back[OF wf11 ne s18' p12]
    have "(x \<noteq> bnOut \<and> place h11 n i x) \<or> (x = ?U \<and> place h11 n i bnOut)" .
    then show ?thesis
      using nb lt(3) by (auto dest!: back11)
  qed
  have r2: "lookup (blocks h') b' = lookup (blocks h0) b'" if "b' \<noteq> bb" for b'
  proof -
    have "lookup (blocks h12) bb = Some (blk\<lparr>b_nodes := insert_before ?N bnN (b_nodes blk)\<rparr>)"
      by (simp add: e12(6) B11)
    then show ?thesis using that by (simp add: d(2) removeFromList_def e12(6) B11)
  qed
  note v1 = val_kept_create[OF s1]
  note v2 = val_kept_trans[OF v1 val_kept_copyMetadata[OF s5]]
  note v3 = val_kept_trans[OF v2 val_kept_copyAttributes[OF s6]]
  note v4 = val_kept_trans[OF v3 val_kept_insertBefore[OF s7]]
  note v5 = val_kept_trans[OF v4 val_kept_addInput[OF s9]]
  note v6 = val_kept_trans[OF v5 val_kept_Graph_addInput[OF s10]]
  note v7 = val_kept_trans[OF v6 val_kept_inferTypeFrom[OF s12]]
  note v8 = val_kept_trans[OF v7 val_kept_addInput[OF s13]]
  note v9 = val_kept_trans[OF v8 val_kept_Block_addInput[OF s14]]
  note v10 = val_kept_trans[OF v9 val_kept_inferTypeFrom[OF s16]]
  note v11 = val_kept_trans[OF v10 val_kept_addInput[OF s17]]
  note v12 = val_kept_trans[OF v11 val_kept_upto_uses[OF e12(5)]]
  have r3: "\<exists>xv'. lookup (vals h') x = Some xv' \<and> v_node xv' = v_node xv"
    if x: "lookup (vals h0) x = Some xv" and nv: "v_node xv \<noteq> bnN" for x xv
  proof -
    obtain xv12 where x12: "lookup (vals h12) x = Some xv12" "v_node xv12 = v_node xv"
      by (rule val_keptD[OF v12 x])
    have "x \<notin> set (n_outputs bn12)"
    proof
      assume "x \<in> set (n_outputs bn12)"
      from wf_ir_output[OF e12(1) bn12(1) this] x12 nv show False by auto
    qed
    then have "lookup (free_list (vals h12) (n_outputs bn12)) x = Some xv12"
      using x12 by simp
    from vals_upto_usesD(1)[OF d(3) this] x12(2) show ?thesis by auto
  qed
  have r4: "\<exists>ins. lookup (nodes h') c = Some (cn\<lparr>n_inputs := ins\<rparr>)"
    if "b_param rblk \<noteq> c" "b_param bblk \<noteq> c" "c \<noteq> bnN"
  proof -
    have "lookup (nodes h11) c = Some cn"
      using that cn lt(1) e2(3) e3(3) e4(6) e5(3) e6(4) e7(2) e8(3) e9(4) e10(2) e11(3) rp bp
      by (simp add: h1)
    from nodes_upto_inputsD(1)[OF e12(4) this] that(3) show ?thesis
      by (auto simp: d(1))
  qed
  show ?thesis
    by (rule that[OF cn bn i0(1) bo(1) bov(1)[unfolded bo(2)] bb rblk bblk d(4) c12
          c13[unfolded bo(2)] c14[unfolded bo(2)] c15[unfolded bo(2)] c16 c17
          c18[unfolded bo(2) i0(2)] c19 c21 c20 w1 s18'[unfolded bo(2)] s19
          w4[unfolded i0(2)] w5 w6 w7 r1[unfolded bo(2) i0(2)] r2 r3 r4])
qed

subsection \<open>The effect of a fusion on the graph\<close>

lemma wf_ir_cong: "nodes h' = nodes h \<Longrightarrow> vals h' = vals h \<Longrightarrow> wf_ir h' = wf_ir h"
  by (simp add: wf_ir_def use_lists_exact_def outputs_defined_def used_def place_def)

lemma place_cong: "nodes h' = nodes h \<Longrightarrow> place h' n i v = place h n i v"
  by (simp add: place_def)

lemma body_graphE:
  assumes "fuseConvBatchNorm_body ops b c h m = Inr (Some (h', m'))"
  obtains cn cv bnNode off bn h1 w bi where
    "lookup (nodes h) c = Some cn" "n_outputs cn \<noteq> []"
    "lookup (vals h) (n_outputs cn ! 0) = Some cv" "v_uses cv = [(bnNode, off)]"
    "lookup (nodes h) bnNode = Some bn" "n_kind bn = onnx_BatchNormalization"
    "nodes h1 = nodes h" "vals h1 = vals h" "blocks h1 = blocks h" "root_block h1 = root_block h"
    "rewrite_conv_bn b c bnNode w bi h1 m = Inr (h', m')"
proof -
  obtain cn cv bnNode off bn eps cvs bvs h1 w bi where
    f: "lookup (nodes h) c = Some cn" "n_outputs cn \<noteq> []"
    "lookup (vals h) (n_outputs cn ! 0) = Some cv" "v_uses cv = [(bnNode, off)]"
    "lookup (nodes h) bnNode = Some bn" "n_kind bn = onnx_BatchNormalization"
    "length (n_outputs cn) = length (n_outputs bn)"
    "attr_f bn ''epsilon'' = Inr eps"
    "getValues h c m = Inr cvs" "cvs \<noteq> []" "length (n_inputs cn) = 3 \<longrightarrow> length cvs = 2"
    "getValues h bnNode m = Inr bvs" "length bvs = 4"
    "fold_conv_bn ops h cvs bvs eps (length (n_inputs cn) = 3) = Inr (Some (h1, w, bi))"
    "rewrite_conv_bn b c bnNode w bi h1 m = Inr (h', m')"
    by (rule bodyE[OF assms])
  have live: "\<And>q. q \<in> set bvs \<union> set cvs \<Longrightarrow> q < fresh (tensors h)"
    using f(9) f(12) by (auto dest: getValues_live)
  have hb: "length (n_inputs cn) = 3 \<Longrightarrow> length cvs = 2" using f(11) by simp
  from f(14) live f(13) f(10) hb
  have g: "nodes h1 = nodes h" "vals h1 = vals h" "blocks h1 = blocks h"
    "root_block h1 = root_block h"
    by (elim fold_conv_bnE; simp)+
  show ?thesis by (rule that[OF f(1-6) g f(15)])
qed

lemma body_foldE:
  assumes "fuseConvBatchNorm_body ops b c h m = Inr (Some (h', m'))"
  obtains cn cv bnNode off bn eps cvs bvs h1 w bi where
    "lookup (nodes h) c = Some cn" "n_outputs cn \<noteq> []"
    "lookup (vals h) (n_outputs cn ! 0) = Some cv" "v_uses cv = [(bnNode, off)]"
    "lookup (nodes h) bnNode = Some bn" "n_kind bn = onnx_BatchNormalization"
    "attr_f bn ''epsilon'' = Inr eps" "getValues h c m = Inr cvs" "getValues h bnNode m = Inr bvs"
    "fold_conv_bn ops h cvs bvs eps (length (n_inputs cn) = 3) = Inr (Some (h1, w, bi))"
    "nodes h1 = nodes h" "vals h1 = vals h" "blocks h1 = blocks h" "root_block h1 = root_block h"
    "rewrite_conv_bn b c bnNode w bi h1 m = Inr (h', m')"
proof -
  obtain cn cv bnNode off bn eps cvs bvs h1 w bi where
    f: "lookup (nodes h) c = Some cn" "n_outputs cn \<noteq> []"
    "lookup (vals h) (n_outputs cn ! 0) = Some cv" "v_uses cv = [(bnNode, off)]"
    "lookup (nodes h) bnNode = Some bn" "n_kind bn = onnx_BatchNormalization"
    "length (n_outputs cn) = length (n_outputs bn)"
    "attr_f bn ''epsilon'' = Inr eps"
    "getValues h c m = Inr cvs" "cvs \<noteq> []" "length (n_inputs cn) = 3 \<longrightarrow> length cvs = 2"
    "getValues h bnNode m = Inr bvs" "length bvs = 4"
    "fold_conv_bn ops h cvs bvs eps (length (n_inputs cn) = 3) = Inr (Some (h1, w, bi))"
    "rewrite_conv_bn b c bnNode w bi h1 m = Inr (h', m')"
    by (rule bodyE[OF assms])
  have live: "\<And>q. q \<in> set bvs \<union> set cvs \<Longrightarrow> q < fresh (tensors h)"
    using f(9) f(12) by (auto dest: getValues_live)
  have hb: "length (n_inputs cn) = 3 \<Longrightarrow> length cvs = 2" using f(11) by simp
  from f(14) live f(13) f(10) hb
  have g: "nodes h1 = nodes h" "vals h1 = vals h" "blocks h1 = blocks h"
    "root_block h1 = root_block h"
    by (elim fold_conv_bnE; simp)+
  show ?thesis by (rule that[OF f(1-6) f(8) f(9) f(12) f(14) g f(15)])
qed

lemma set_insert_before: "p \<in> set xs \<Longrightarrow> set (insert_before n p xs) = insert n (set xs)"
proof -
  have "set xs = set (takeWhile (\<lambda>x. x \<noteq> p) xs) \<union> set (dropWhile (\<lambda>x. x \<noteq> p) xs)"
    by (metis set_append takeWhile_dropWhile_id)
  then show ?thesis by (auto simp: insert_before_def)
qed

lemma list_prev_member: "n \<in> set xs \<Longrightarrow> \<exists>cur. list_prev xs n = Inr cur"
  by (simp add: list_prev_def)

lemma wf_ir_checkI:
  assumes "wf_ir_check h"
  shows "wf_ir h"
proof -
  have n: "list_all (\<lambda>i. used h (n_inputs nd ! i) n i) [0 ..< length (n_inputs nd)] \<and>
           list_all (\<lambda>v. case lookup (vals h) v of None \<Rightarrow> False | Some vv \<Rightarrow> v_node vv = n)
             (n_outputs nd)"
    if "lookup (nodes h) n = Some nd" for n nd
  proof -
    have "n < length (nodes h)" using that lookup_Some_less[OF that] by (simp add: fresh_def)
    then show ?thesis
      using assms that unfolding wf_ir_check_def list_all_iff by force
  qed
  have v: "distinct (v_uses vv) \<and> list_all (\<lambda>u. place h (fst u) (snd u) x) (v_uses vv)"
    if "lookup (vals h) x = Some vv" for x vv
  proof -
    have "x < length (vals h)" using lookup_Some_less[OF that] by (simp add: fresh_def)
    then show ?thesis
      using assms that unfolding wf_ir_check_def list_all_iff by force
  qed
  show ?thesis
  proof (rule wf_irI)
    fix x m i
    show "used h x m i = place h m i x"
    proof
      assume "used h x m i"
      then obtain vv where "lookup (vals h) x = Some vv" "(m, i) \<in> set (v_uses vv)"
        by (auto simp: used_def split: option.splits)
      then show "place h m i x" using v[of x vv] by (auto simp: list_all_iff)
    next
      assume "place h m i x"
      then obtain nd where "lookup (nodes h) m = Some nd" "i < length (n_inputs nd)"
        "n_inputs nd ! i = x"
        by (auto simp: place_def split: option.splits)
      then show "used h x m i" using n[of m nd] by (auto simp: list_all_iff)
    qed
  next
    fix x vv assume "lookup (vals h) x = Some vv"
    then show "distinct (v_uses vv)" using v by blast
  next
    fix m md x assume "lookup (nodes h) m = Some md" "x \<in> set (n_outputs md)"
    then show "\<exists>xv. lookup (vals h) x = Some xv \<and> v_node xv = m"
      using n[of m md] by (auto simp: list_all_iff split: option.splits)
  qed
qed

lemma conv_bn_graph_wf: "wf_ir conv_bn_graph"
  by (rule wf_ir_checkI)
     (simp add: wf_ir_check_def used_def place_def lookup_def conv_bn_graph_def mk_node_def
        mk_val_def)

lemma conv_bn_fusion_runs:
  "\<exists>h1 m1 h2 cur.
     fuseConvBatchNorm_body example_ops 0 2 conv_bn_graph conv_bn_table = Inr (Some (h1, m1)) \<and>
     destroyCurrent h1 0 2 = Inr (h2, cur)"
  by (simp add: eval_defs conv_bn_graph_def conv_bn_table_def cong: eval_congs)

lemma conv_bn_fold_runs:
  "getValues conv_bn_graph 2 conv_bn_table = Inr [0] \<and>
   getValues conv_bn_graph 3 conv_bn_table = Inr [1, 2, 3, 4] \<and>
   (\<exists>hf. fold_conv_bn example_ops conv_bn_graph [0] [1, 2, 3, 4] 1 False = Inr (Some (hf, 11, 12)))"
  by (simp add: eval_defs conv_bn_graph_def conv_bn_table_def cong: eval_congs)

lemma conv_bn_table_keys:
  "\<forall>v. conv_bn_table v \<noteq> None \<longrightarrow> lookup (vals conv_bn_graph) v \<noteq> None"
  by (auto simp: conv_bn_table_def conv_bn_graph_def lookup_def split: if_splits)

subsection \<open>The dictionary and the table\<close>

lemma build_foldl:
  "foldl (\<lambda>m v. case lookup (vals h) v of
                     None \<Rightarrow> m
                   | Some vv \<Rightarrow>
                       (case pd (debugName v vv) of
                          None \<Rightarrow> m
                        | Some iv \<Rightarrow> map_insert m v (debugName v vv, iv))) m0 xs k =
   (case m0 k of
      Some e \<Rightarrow> Some e
    | None \<Rightarrow>
        if k \<in> set xs then
          (case lookup (vals h) k of
             None \<Rightarrow> None
           | Some vv \<Rightarrow> map_option (Pair (debugName k vv)) (pd (debugName k vv)))
        else None)"
proof (induction xs arbitrary: m0)
  case Nil
  then show ?case by (simp split: option.splits)
next
  case (Cons x xs)
  show ?case
    unfolding foldl_Cons Cons.IH
    by (auto simp: map_insert_def split: option.splits)
qed

lemma buildValueToParamsMap_lookup:
  "buildValueToParamsMap h b pd k =
     (if k \<in> set (block_inputs h b) then
        (case lookup (vals h) k of
           None \<Rightarrow> None
         | Some vv \<Rightarrow> map_option (Pair (debugName k vv)) (pd (debugName k vv)))
      else None)"
  unfolding buildValueToParamsMap_def build_foldl by simp

lemma write_back_foldl:
  "foldl (\<lambda>d v. case m v of None \<Rightarrow> d | Some (name, iv) \<Rightarrow> map_insert d name iv) d0 ks n =
   (case d0 n of
      Some x \<Rightarrow> Some x
    | None \<Rightarrow>
        (case List.find (\<lambda>k. case m k of None \<Rightarrow> False | Some e \<Rightarrow> fst e = n) ks of
           None \<Rightarrow> None
         | Some k \<Rightarrow> map_option snd (m k)))"
proof (induction ks arbitrary: d0)
  case Nil
  then show ?case by (simp split: option.splits)
next
  case (Cons k ks)
  show ?case
    unfolding foldl_Cons Cons.IH
    by (auto simp: map_insert_def split: option.splits)
qed

lemma write_back_lookup:
  "buildParamsMapFromValueToParamsMap h m pd n =
     (case List.find (\<lambda>k. case m k of None \<Rightarrow> False | Some e \<Rightarrow> fst e = n) [0 ..< fresh (vals h)] of
        None \<Rightarrow> None
      | Some k \<Rightarrow> map_option snd (m k))"
  unfolding buildParamsMapFromValueToParamsMap_def write_back_foldl by simp

lemma input_names_iff:
  "n \<in> set (input_names h b) \<longleftrightarrow>
     (\<exists>v vv. v \<in> set (block_inputs h b) \<and> lookup (vals h) v = Some vv \<and> debugName v vv = n)"
  by (auto simp: input_names_def split: option.splits) metis+

text \<open>What the write-back returns for a table that holds the built table below
  \<open>fresh (vals h)\<close>.\<close>

lemma write_back_of_built:
  assumes le: "fresh (vals h) \<le> fresh (vals h')"
    and old: "\<And>k. k < fresh (vals h) \<Longrightarrow> m' k = buildValueToParamsMap h b pd k"
    and n: "n \<in> set (input_names h b)" and iv: "pd n = Some iv"
  shows "buildParamsMapFromValueToParamsMap h' m' pd' n = Some iv"
proof -
  let ?P = "\<lambda>k. case m' k of None \<Rightarrow> False | Some e \<Rightarrow> fst e = n"
  from n obtain v vv where v: "v \<in> set (block_inputs h b)" "lookup (vals h) v = Some vv"
    "debugName v vv = n"
    unfolding input_names_iff by blast
  have vlt: "v < fresh (vals h)" using v(2) by (rule lookup_Some_less)
  have mv: "m' v = Some (n, iv)"
    using old[OF vlt] v iv by (simp add: buildValueToParamsMap_lookup)
  have "v \<in> set [0 ..< fresh (vals h')]" using vlt le by simp
  moreover have "?P v" using mv by simp
  ultimately obtain k where k: "List.find ?P [0 ..< fresh (vals h')] = Some k"
    by (cases "List.find ?P [0 ..< fresh (vals h')]") (auto simp: find_None_iff)
  then obtain i where i: "i < length [0 ..< fresh (vals h')]" "?P ([0 ..< fresh (vals h')] ! i)"
    "k = [0 ..< fresh (vals h')] ! i" "\<forall>j<i. \<not> ?P ([0 ..< fresh (vals h')] ! j)"
    unfolding find_Some_iff by blast
  have ki: "k = i" using i(1,3) by simp
  have "k \<le> v"
  proof (rule ccontr)
    assume "\<not> k \<le> v"
    then have "v < i" using ki by simp
    with i(4) have "\<not> ?P ([0 ..< fresh (vals h')] ! v)" by blast
    moreover have "[0 ..< fresh (vals h')] ! v = v" using vlt le by simp
    ultimately show False using \<open>?P v\<close> by simp
  qed
  then have klt: "k < fresh (vals h)" using vlt by simp
  from i(2) ki i(1) obtain e where e: "m' k = Some e" "fst e = n"
    by (auto split: option.splits)
  have "m' k = buildValueToParamsMap h b pd k" using old[OF klt] .
  with e iv have "snd e = iv"
    by (auto simp: buildValueToParamsMap_lookup split: if_splits option.splits)
  then show ?thesis unfolding write_back_lookup k using e by simp
qed

lemma write_back_of_built_exact:
  "buildParamsMapFromValueToParamsMap h (buildValueToParamsMap h b pd) pd' n =
     (if n \<in> set (input_names h b) then pd n else None)"
proof (cases "n \<in> set (input_names h b) \<and> pd n \<noteq> None")
  case True
  then obtain iv where "pd n = Some iv" by auto
  with True write_back_of_built[of h h "buildValueToParamsMap h b pd" b pd n iv pd']
  show ?thesis by simp
next
  case False
  let ?m = "buildValueToParamsMap h b pd"
  let ?P = "\<lambda>k. case ?m k of None \<Rightarrow> False | Some e \<Rightarrow> fst e = n"
  have "\<not> ?P k" for k
  proof
    assume "?P k"
    then obtain e where e: "?m k = Some e" "fst e = n" by (auto split: option.splits)
    then have "n \<in> set (input_names h b) \<and> pd n \<noteq> None"
      unfolding input_names_iff
      by (auto simp: buildValueToParamsMap_lookup split: if_splits option.splits)
    with False show False by simp
  qed
  then have "List.find ?P [0 ..< fresh (vals h)] = None" by (simp add: find_None_iff)
  then have "buildParamsMapFromValueToParamsMap h ?m pd' n = None"
    unfolding write_back_lookup by simp
  with False show ?thesis by auto
qed

subsection \<open>The value store only grows\<close>

lemma create_vals_grow: "create h k 1 = (h', r) \<Longrightarrow> fresh (vals h) \<le> fresh (vals h')"
  unfolding create_1 by auto

lemma copyMetadata_vals_grow: "copyMetadata h a b = Inr h' \<Longrightarrow> fresh (vals h) \<le> fresh (vals h')"
  by (auto simp: copyMetadata_def ebind_eq_Inr)

lemma copyAttributes_vals_grow: "copyAttributes h a b = Inr h' \<Longrightarrow> fresh (vals h) \<le> fresh (vals h')"
  by (auto simp: copyAttributes_def ebind_eq_Inr)

lemma insertBefore_vals_grow: "insertBefore h a b = Inr h' \<Longrightarrow> fresh (vals h) \<le> fresh (vals h')"
  by (auto simp: insertBefore_def ebind_eq_Inr split: option.splits if_splits)

lemma addInput_vals_grow: "addInput h a b = Inr h' \<Longrightarrow> fresh (vals h) \<le> fresh (vals h')"
  by (auto simp: addInput_def ebind_eq_Inr)

lemma addOutput_vals_grow:
  "addOutput h n = Inr (h', v) \<Longrightarrow> v = fresh (vals h) \<and> fresh (vals h) \<le> fresh (vals h')"
  by (auto simp: addOutput_def ebind_eq_Inr Let_def)

lemma Block_addInput_vals_grow:
  "Block_addInput h b = Inr (h', v) \<Longrightarrow> v = fresh (vals h) \<and> fresh (vals h) \<le> fresh (vals h')"
  by (auto simp: Block_addInput_def ebind_eq_Inr dest: addOutput_vals_grow)

lemma Graph_addInput_vals_grow:
  "Graph_addInput h = Inr (h', v) \<Longrightarrow> v = fresh (vals h) \<and> fresh (vals h) \<le> fresh (vals h')"
  by (auto simp: Graph_addInput_def dest: Block_addInput_vals_grow)

lemma inferTypeFrom_vals_grow: "inferTypeFrom h v r = Inr h' \<Longrightarrow> fresh (vals h) \<le> fresh (vals h')"
  by (auto simp: inferTypeFrom_def ebind_eq_Inr)

lemma replaceFirstUseWith_vals_grow:
  "replaceFirstUseWith h a b = Inr h' \<Longrightarrow> fresh (vals h) \<le> fresh (vals h')"
  by (auto simp: replaceFirstUseWith_def ebind_eq_Inr)

lemma replaceUses_vals_grow: "replaceUses k h a b = Inr h' \<Longrightarrow> fresh (vals h) \<le> fresh (vals h')"
proof (induction k arbitrary: h)
  case 0
  then show ?case by simp
next
  case (Suc k)
  then obtain h1 where "replaceFirstUseWith h a b = Inr h1" "replaceUses k h1 a b = Inr h'"
    by (auto simp: ebind_eq_Inr)
  then show ?case
    using Suc.IH[of h1] replaceFirstUseWith_vals_grow[of h a b h1] by simp
qed

lemma replaceAllUsesWith_vals_grow:
  "replaceAllUsesWith h a b = Inr h' \<Longrightarrow> fresh (vals h) \<le> fresh (vals h')"
  by (auto simp: replaceAllUsesWith_def ebind_eq_Inr dest: replaceUses_vals_grow)

lemma dropInputs_vals_grow: "dropInputs h n vs i = Inr h' \<Longrightarrow> fresh (vals h) \<le> fresh (vals h')"
proof (induction vs arbitrary: h i)
  case Nil
  then show ?case by simp
next
  case (Cons v vs)
  then obtain vv where
    "dropInputs (h\<lparr>vals := put (vals h) v (vv\<lparr>v_uses := remove1 (n, i) (v_uses vv)\<rparr>)\<rparr>) n vs (Suc i)
       = Inr h'"
    by (auto simp: ebind_eq_Inr split: if_splits)
  from Cons.IH[OF this] show ?case by simp
qed

lemma removeFromList_vals: "vals (removeFromList h n ob) = vals h"
  by (auto simp: removeFromList_def split: option.splits)

lemma destroy_vals_grow: "destroy h n = Inr h' \<Longrightarrow> fresh (vals h) \<le> fresh (vals h')"
  by (auto simp: destroy_def ebind_eq_Inr Let_def removeFromList_vals
           dest!: dropInputs_vals_grow split: if_splits)

lemma destroyCurrent_vals_grow:
  "destroyCurrent h b n = Inr (h', cur) \<Longrightarrow> fresh (vals h) \<le> fresh (vals h')"
  by (auto simp: destroyCurrent_def ebind_eq_Inr dest: destroy_vals_grow)

lemma rewrite_conv_bn_new_keys:
  assumes "rewrite_conv_bn b c bnN w bi h0 m0 = Inr (h', m')"
  shows "fresh (vals h0) \<le> fresh (vals h')"
    and "\<And>k. m0 k = None \<Longrightarrow> m' k \<noteq> None \<Longrightarrow> fresh (vals h0) \<le> k"
proof -
  obtain h1 newConv newOut bnOut h2 h3 h4 in0 h5 h6 newConvW vw h7 h8 h9 newConvB vb
    h10 h11 h12
    where s: "create h0 onnx_Conv 1 = (h1, newConv)"
    "copyMetadata h1 newOut bnOut = Inr h2" "copyAttributes h2 newConv c = Inr h3"
    "insertBefore h3 newConv bnN = Inr h4"
    "addInput h4 newConv in0 = Inr h5" "Graph_addInput h5 = Inr (h6, newConvW)"
    "inferTypeFrom h6 newConvW w = Inr h7"
    "addInput h7 newConv newConvW = Inr h8" "Block_addInput h8 b = Inr (h9, newConvB)"
    "inferTypeFrom h9 newConvB bi = Inr h10"
    "addInput h10 newConv newConvB = Inr h11" "replaceAllUsesWith h11 bnOut newOut = Inr h12"
    "destroy h12 bnN = Inr h'"
    "m' = map_insert (map_insert m0 newConvW (debugName newConvW vw, TensorIValue w))
            newConvB (debugName newConvB vb, TensorIValue bi)"
    by (rule rewrite_conv_bnE[OF assms]) (rule that)
  note g = create_vals_grow[OF s(1)] copyMetadata_vals_grow[OF s(2)]
    copyAttributes_vals_grow[OF s(3)] insertBefore_vals_grow[OF s(4)]
    addInput_vals_grow[OF s(5)] Graph_addInput_vals_grow[OF s(6)]
    inferTypeFrom_vals_grow[OF s(7)] addInput_vals_grow[OF s(8)]
    Block_addInput_vals_grow[OF s(9)] inferTypeFrom_vals_grow[OF s(10)]
    addInput_vals_grow[OF s(11)] replaceAllUsesWith_vals_grow[OF s(12)]
    destroy_vals_grow[OF s(13)]
  show "fresh (vals h0) \<le> fresh (vals h')" using g by linarith
  have w: "fresh (vals h0) \<le> newConvW" "fresh (vals h0) \<le> newConvB" using g by linarith+
  show "fresh (vals h0) \<le> k" if "m0 k = None" "m' k \<noteq> None" for k
    using that w unfolding s(14) by (auto simp: map_insert_def split: option.splits if_splits)
qed

lemma body_new_keys:
  assumes "fuseConvBatchNorm_body ops b c h m = Inr (Some (h', m'))"
  shows "fresh (vals h) \<le> fresh (vals h')"
    and "\<And>k. m k = None \<Longrightarrow> m' k \<noteq> None \<Longrightarrow> fresh (vals h) \<le> k"
proof -
  obtain bnNode h1 w bi where
    f: "vals h1 = vals h" "rewrite_conv_bn b c bnNode w bi h1 m = Inr (h', m')"
    by (rule body_graphE[OF assms]) (rule that)
  show "fresh (vals h) \<le> fresh (vals h')"
    using rewrite_conv_bn_new_keys(1)[OF f(2)] f(1) by simp
  show "fresh (vals h) \<le> k" if "m k = None" "m' k \<noteq> None" for k
    using rewrite_conv_bn_new_keys(2)[OF f(2) that] f(1) by simp
qed

lemma walk_new_keys:
  assumes "fuseConvBatchNorm k ops b (h, m) = Some (Inr (h', m'))"
  shows "fresh (vals h) \<le> fresh (vals h')" and "m \<subseteq>\<^sub>m m'"
    and "\<And>v. m v = None \<Longrightarrow> m' v \<noteq> None \<Longrightarrow> fresh (vals h) \<le> v"
proof -
  let ?R = "\<lambda>(s :: 'a pass_state) (s' :: 'a pass_state).
      fresh (vals (fst s)) \<le> fresh (vals (fst s')) \<and> snd s \<subseteq>\<^sub>m snd s' \<and>
      (\<forall>v. snd s v = None \<longrightarrow> snd s' v \<noteq> None \<longrightarrow> fresh (vals (fst s)) \<le> v)"
  have "\<forall>s'. fuseConvBatchNorm k ops b (h, m) = Some (Inr s') \<longrightarrow> ?R (h, m) s'"
  proof (rule walk_rule(1)[where R = ?R])
    fix ops :: "'a scalar_ops" and b n h m h' m'
    assume "fuseConvBatchNorm_body ops b n h m = Inr (Some (h', m'))"
    then show "?R (h, m) (h', m')"
      using body_new_keys body_table by fastforce
  next
    fix h :: "'a heap" and b n h' cur and m :: ValueToParamPairMap
    assume "destroyCurrent h b n = Inr (h', cur)"
    then show "?R (h, m) (h', m)" by (simp add: destroyCurrent_vals_grow)
  next
    fix s :: "'a pass_state"
    show "?R s s" by simp
  next
    fix s t u :: "'a pass_state"
    assume a: "?R s t" and b: "?R t u"
    have "fresh (vals (fst s)) \<le> v" if "snd s v = None" "snd u v \<noteq> None" for v
    proof (cases "snd t v")
      case None
      then have "fresh (vals (fst t)) \<le> v" using b that(2) by blast
      then show ?thesis using a by linarith
    next
      case (Some e)
      then show ?thesis using a that(1) by auto
    qed
    then show "?R s u" using a b by (auto intro: map_le_trans)
  qed
  with assms have r: "?R (h, m) (h', m')" by blast
  then show "fresh (vals h) \<le> fresh (vals h')" and "m \<subseteq>\<^sub>m m'" by simp_all
  show "fresh (vals h) \<le> v" if "m v = None" "m' v \<noteq> None" for v
    using r that by auto
qed

subsection \<open>A walk without a match\<close>


subsection \<open>The example graphs\<close>

lemma conv_bn_named_input_names:
  "input_names conv_bn_named_graph 0 = [''x'', ''W'', ''scale'', ''B'', ''mean'', ''var'']"
  by (simp add: input_names_def block_inputs_def conv_bn_named_graph_def conv_bn_graph_def
        lookup_def mk_node_def mk_val_def debugName_def)

lemma conv_bn_named_graph_runs:
  "\<exists>h' pd'. EvalPeepholeONNX 4 example_ops 0 conv_bn_named_graph conv_bn_dict True =
       Some (Inr (h', pd')) \<and> lookup (nodes h') 3 = None"
  by (simp add: EvalPeepholeONNX_def buildValueToParamsMap_def block_inputs_def
        buildParamsMapFromValueToParamsMap_def eval_defs conv_bn_named_graph_def
        conv_bn_graph_def conv_bn_dict_def cong: eval_congs)









section \<open>The claims\<close>

text \<open>
  C1, amended. With \<open>isAllowedToAdjustGraphInputs = false\<close> the pass returns the graph it
  was given, and the dictionary that it writes back holds the entries of the given
  dictionary whose name is the debug name of an input of the block, each with its value,
  and nothing else: no entry is added or altered. For either value of the flag, when the
  pass returns, every entry of the given dictionary whose name is the debug name of an
  input of the block is in the dictionary written back, with its value.
\<close>

theorem EvalPeepholeONNX_gating_and_table:
  "EvalPeepholeONNX fuel ops b h paramsDict False =
     Some (Inr (h, \<lambda>n. if n \<in> set (input_names h b) then paramsDict n else None)) \<and>
   (\<forall>flag h' pd' n iv.
      EvalPeepholeONNX fuel ops b h paramsDict flag = Some (Inr (h', pd')) \<and>
      n \<in> set (input_names h b) \<and> paramsDict n = Some iv \<longrightarrow> pd' n = Some iv)"
proof (intro conjI allI impI)
  show "EvalPeepholeONNX fuel ops b h paramsDict False =
     Some (Inr (h, \<lambda>n. if n \<in> set (input_names h b) then paramsDict n else None))"
    by (simp add: EvalPeepholeONNX_def write_back_of_built_exact fun_eq_iff)
next
  fix flag h' pd' n iv
  assume a: "EvalPeepholeONNX fuel ops b h paramsDict flag = Some (Inr (h', pd')) \<and>
      n \<in> set (input_names h b) \<and> paramsDict n = Some iv"
  show "pd' n = Some iv"
  proof (cases flag)
    case False
    with a show ?thesis
      by (auto simp: EvalPeepholeONNX_def write_back_of_built_exact)
  next
    case True
    with a obtain m' where
      w: "fuseConvBatchNorm fuel ops b (h, buildValueToParamsMap h b paramsDict) = Some (Inr (h', m'))"
      and pd: "pd' = buildParamsMapFromValueToParamsMap h' m' paramsDict"
      by (auto simp: EvalPeepholeONNX_def rbind_eq_Some_Inr)
    let ?m = "buildValueToParamsMap h b paramsDict"
    note k = walk_new_keys[OF w]
    have old: "m' v = ?m v" if "v < fresh (vals h)" for v
    proof (cases "?m v")
      case None
      show ?thesis
      proof (cases "m' v")
        case None
        with \<open>?m v = None\<close> show ?thesis by simp
      next
        case (Some e)
        with k(3)[OF \<open>?m v = None\<close>] that show ?thesis by simp
      qed
    next
      case (Some e)
      with k(2) show ?thesis by (auto simp: map_le_def dom_def)
    qed
    from a have n: "n \<in> set (input_names h b)" and iv: "paramsDict n = Some iv" by simp_all
    show ?thesis
      unfolding pd by (rule write_back_of_built[OF k(1) old n iv])
  qed
qed

theorem EvalPeepholeONNX_gating_and_table_witness:
  "EvalPeepholeONNX 4 example_ops 0 conv_bn_named_graph conv_bn_dict False =
     Some (Inr (conv_bn_named_graph,
       \<lambda>n. if n \<in> set [''x'', ''W'', ''scale'', ''B'', ''mean'', ''var''] then conv_bn_dict n else None)) \<and>
   (\<exists>h' pd'. EvalPeepholeONNX 4 example_ops 0 conv_bn_named_graph conv_bn_dict True =
       Some (Inr (h', pd')) \<and> lookup (nodes h') 3 = None \<and>
       conv_bn_dict ''W'' = Some (TensorIValue 0) \<and> pd' ''W'' = Some (TensorIValue 0))"
proof -
  note c1 = EvalPeepholeONNX_gating_and_table[of 4 example_ops 0 conv_bn_named_graph conv_bn_dict,
      unfolded conv_bn_named_input_names]
  obtain h' pd' where
    r: "EvalPeepholeONNX 4 example_ops 0 conv_bn_named_graph conv_bn_dict True =
       Some (Inr (h', pd'))" "lookup (nodes h') 3 = None"
    using conv_bn_named_graph_runs by blast
  have d: "conv_bn_dict ''W'' = Some (TensorIValue 0)" by (simp add: conv_bn_dict_def)
  have "pd' ''W'' = Some (TensorIValue 0)"
    using c1 r(1) d by (elim conjE allE[of _ True] allE[of _ h'] allE[of _ pd']
        allE[of _ "''W''"] allE[of _ "TensorIValue 0"]) simp
  with c1 r d show ?thesis by blast
qed

text \<open>
  Counterexample to C1 as stated: an entry of the dictionary whose name is not the debug
  name of an input of the block is removed, also when the flag is false. Line 157 runs
  for either value of the flag: it clears the dictionary and fills it from the table,
  and the table was built from the inputs of the block.
\<close>

theorem table_entry_removed_counterexample:
  "\<exists>pd'. EvalPeepholeONNX 4 example_ops 0 conv_bn_named_graph conv_bn_dict False =
       Some (Inr (conv_bn_named_graph, pd')) \<and>
     conv_bn_dict ''stale'' = Some (TensorIValue 6) \<and> pd' ''stale'' = None"
  by (simp add: EvalPeepholeONNX_def write_back_of_built_exact conv_bn_named_input_names
        conv_bn_dict_def)

text \<open>
  C8. The folder works on copies. Every tensor object that exists before a fusion,
  among them the tensors bound in the table and the tensors attached to
  \<open>Constant\<close> nodes, has the same dtype, shape and elements after it: the clones and
  the results are new objects, and the one in-place write (the rows of the weight) goes
  to the clone. The same holds across a whole walk. The tensors bound to the two new
  inputs are objects that did not exist before.
\<close>

theorem fold_leaves_original_tensors:
  "(\<forall>h' m'. fuseConvBatchNorm_body ops b oldConv h m = Inr (Some (h', m')) \<longrightarrow>
      (\<forall>r t. lookup (tensors h) r = Some t \<longrightarrow> lookup (tensors h') r = Some t)) \<and>
   (\<forall>h' m'. fuseConvBatchNorm fuel ops b (h, m) = Some (Inr (h', m')) \<longrightarrow>
      (\<forall>r t. lookup (tensors h) r = Some t \<longrightarrow> lookup (tensors h') r = Some t))"
proof (intro conjI allI impI)
  fix h' m' r t
  assume "fuseConvBatchNorm_body ops b oldConv h m = Inr (Some (h', m'))"
    and "lookup (tensors h) r = Some t"
  then show "lookup (tensors h') r = Some t"
    using body_tensors(1) lookup_Some_less by metis
next
  fix h' m' r t
  assume w: "fuseConvBatchNorm fuel ops b (h, m) = Some (Inr (h', m'))"
    and l: "lookup (tensors h) r = Some t"
  let ?R = "\<lambda>(s :: 'a pass_state) (s' :: 'a pass_state).
      fresh (tensors (fst s)) \<le> fresh (tensors (fst s')) \<and>
      (\<forall>q. q < fresh (tensors (fst s)) \<longrightarrow> lookup (tensors (fst s')) q = lookup (tensors (fst s)) q)"
  have "\<forall>s'. fuseConvBatchNorm fuel ops b (h, m) = Some (Inr s') \<longrightarrow> ?R (h, m) s'"
  proof (rule walk_rule(1)[where R = ?R])
    fix ops' :: "'a scalar_ops" and b n h m h' m'
    assume "fuseConvBatchNorm_body ops' b n h m = Inr (Some (h', m'))"
    then show "?R (h, m) (h', m')"
      using body_tensors by fastforce
  next
    fix h :: "'a heap" and b n h' cur and m :: ValueToParamPairMap
    assume "destroyCurrent h b n = Inr (h', cur)"
    then show "?R (h, m) (h', m)"
      by (simp add: destroyCurrent_tensors)
  next
    fix s :: "'a pass_state"
    show "?R s s" by simp
  next
    fix s t u :: "'a pass_state"
    assume "?R s t" "?R t u"
    then show "?R s u" by auto
  qed
  with w have "?R (h, m) (h', m')" by blast
  with l show "lookup (tensors h') r = Some t"
    using lookup_Some_less by fastforce
qed

theorem fold_leaves_original_tensors_witness:
  "\<exists>h' m'. fuseConvBatchNorm 4 example_ops 0 (conv_bn_graph, conv_bn_table) = Some (Inr (h', m')) \<and>
     lookup (tensors conv_bn_graph) 0 = Some (mk_tensor [2, 1, 2] [1, 2, 3, 4]) \<and>
     lookup (tensors h') 0 = Some (mk_tensor [2, 1, 2] [1, 2, 3, 4]) \<and>
     (\<exists>h2 m2. fuseConvBatchNorm_body example_ops 0 2 conv_bn_graph conv_bn_table = Inr (Some (h2, m2)) \<and>
        lookup (tensors h2) 0 = Some (mk_tensor [2, 1, 2] [1, 2, 3, 4]))"
proof -
  obtain h' m' where
    e: "fuseConvBatchNorm 4 example_ops 0 (conv_bn_graph, conv_bn_table) = Some (Inr (h', m'))"
    using conv_bn_graph_runs by blast
  obtain h2 m2 where
    e2: "fuseConvBatchNorm_body example_ops 0 2 conv_bn_graph conv_bn_table = Inr (Some (h2, m2))"
    using conv_bn_body_runs by blast
  have l: "lookup (tensors conv_bn_graph) 0 = Some (mk_tensor [2, 1, 2] [1, 2, 3, 4])"
    by (simp add: conv_bn_graph_def lookup_def)
  note c8 = fold_leaves_original_tensors[where ops = example_ops and b = 0 and oldConv = 2
      and h = conv_bn_graph and m = conv_bn_table and fuel = 4]
  from c8 e l have "lookup (tensors h') 0 = Some (mk_tensor [2, 1, 2] [1, 2, 3, 4])" by blast
  moreover from c8 e2 l have "lookup (tensors h2) 0 = Some (mk_tensor [2, 1, 2] [1, 2, 3, 4])" by blast
  ultimately show ?thesis using e e2 l by blast
qed

text \<open>
  C6. A Conv candidate that fails a check of the matcher is skipped silently: the body of
  the loop returns \<open>Inr None\<close>, the \<^verbatim>\<open>continue\<close> of the source, which is no error and
  hands the heap and the table on as they were (the clones made for the numeric checks
  are temporaries). One conjunct for every check: the fan-out of the output, the kind of
  the consumer, the output arities, the resolved inputs of the convolution and of the
  normalization, the dtypes, the ranks of the normalization tensors, the channel counts
  and the rank of the weight. Each check is reached when the reads before it succeed.
\<close>

theorem failed_precondition_is_silent_skip:
  assumes "lookup (nodes h) oldConv = Some cn" and "n_outputs cn \<noteq> []"
    and "lookup (vals h) (n_outputs cn ! 0) = Some cv"
  shows
   "(length (v_uses cv) \<noteq> 1 \<longrightarrow> fuseConvBatchNorm_body ops b oldConv h m = Inr None) \<and>
    (\<forall>bnNode off bn.
       v_uses cv = [(bnNode, off)] \<and> lookup (nodes h) bnNode = Some bn \<longrightarrow>
       (n_kind bn \<noteq> onnx_BatchNormalization \<longrightarrow>
          fuseConvBatchNorm_body ops b oldConv h m = Inr None) \<and>
       (length (n_outputs cn) \<noteq> length (n_outputs bn) \<longrightarrow>
          fuseConvBatchNorm_body ops b oldConv h m = Inr None) \<and>
       (\<forall>eps cvs.
          attr_f bn ''epsilon'' = Inr eps \<and> getValues h oldConv m = Inr cvs \<longrightarrow>
          (cvs = [] \<longrightarrow> fuseConvBatchNorm_body ops b oldConv h m = Inr None) \<and>
          (length (n_inputs cn) = 3 \<and> length cvs \<noteq> 2 \<longrightarrow>
             fuseConvBatchNorm_body ops b oldConv h m = Inr None) \<and>
          (\<forall>bvs.
             getValues h bnNode m = Inr bvs \<longrightarrow>
             (length bvs \<noteq> 4 \<longrightarrow> fuseConvBatchNorm_body ops b oldConv h m = Inr None) \<and>
             (\<forall>tScale tB tMean tVar tW.
                length bvs = 4 \<and> cvs \<noteq> [] \<and>
                lookup (tensors h) (bvs ! 0) = Some tScale \<and>
                lookup (tensors h) (bvs ! 1) = Some tB \<and>
                lookup (tensors h) (bvs ! 2) = Some tMean \<and>
                lookup (tensors h) (bvs ! 3) = Some tVar \<and>
                lookup (tensors h) (cvs ! 0) = Some tW \<longrightarrow>
                (\<not> is_floating_point tScale \<or> \<not> is_floating_point tB \<or>
                 \<not> is_floating_point tMean \<or> \<not> is_floating_point tVar \<or>
                 \<not> is_floating_point tW \<longrightarrow>
                   fuseConvBatchNorm_body ops b oldConv h m = Inr None) \<and>
                (dim tScale \<noteq> 1 \<or> dim tB \<noteq> 1 \<or> dim tMean \<noteq> 1 \<or> dim tVar \<noteq> 1 \<longrightarrow>
                   fuseConvBatchNorm_body ops b oldConv h m = Inr None) \<and>
                (size0 tScale \<noteq> size0 tB \<or> size0 tB \<noteq> size0 tMean \<or>
                 size0 tMean \<noteq> size0 tVar \<or> size0 tW \<noteq> size0 tScale \<longrightarrow>
                   fuseConvBatchNorm_body ops b oldConv h m = Inr None) \<and>
                (\<not> dim tW > 2 \<longrightarrow> fuseConvBatchNorm_body ops b oldConv h m = Inr None)))))"
proof -
  have skip: "fuseConvBatchNorm_body ops b oldConv h m = Inr None"
    if "v_uses cv = [(bnNode, off)]" "lookup (nodes h) bnNode = Some bn"
      "attr_f bn ''epsilon'' = Inr eps" "getValues h oldConv m = Inr cvs"
      "getValues h bnNode m = Inr bvs" "length bvs = 4" "cvs \<noteq> []"
      "lookup (tensors h) (bvs ! 0) = Some tScale" "lookup (tensors h) (bvs ! 1) = Some tB"
      "lookup (tensors h) (bvs ! 2) = Some tMean" "lookup (tensors h) (bvs ! 3) = Some tVar"
      "lookup (tensors h) (cvs ! 0) = Some tW" "fold_checks tScale tB tMean tVar tW"
    for bnNode off bn eps cvs bvs tScale tB tMean tVar tW
    using assms that
    by (simp add: fuseConvBatchNorm_body_def at_index_def Let_def fold_conv_bn_skip[where ops = ops])
  show ?thesis
    using assms
    apply (intro conjI allI impI)
            apply (simp_all add: fuseConvBatchNorm_body_def at_index_def Let_def)[6]
    subgoal for bnNode off bn eps cvs bvs tScale tB tMean tVar tW
      by (rule skip[of bnNode off bn eps cvs bvs tScale tB tMean tVar tW])
         (auto simp: fold_checks_def)
    subgoal for bnNode off bn eps cvs bvs tScale tB tMean tVar tW
      by (rule skip[of bnNode off bn eps cvs bvs tScale tB tMean tVar tW])
         (auto simp: fold_checks_def)
    subgoal for bnNode off bn eps cvs bvs tScale tB tMean tVar tW
      by (rule skip[of bnNode off bn eps cvs bvs tScale tB tMean tVar tW])
         (auto simp: fold_checks_def)
    subgoal for bnNode off bn eps cvs bvs tScale tB tMean tVar tW
      by (rule skip[of bnNode off bn eps cvs bvs tScale tB tMean tVar tW])
         (auto simp: fold_checks_def)
    done
qed


theorem failed_precondition_is_silent_skip_witness:
  "fuseConvBatchNorm_body example_ops 0 2 conv_bn_graph Map.empty = Inr None \<and>
   fuseConvBatchNorm_body example_ops 0 2 conv_bn_graph
     (conv_bn_table(5 \<mapsto> (''var'', TensorIValue 5))) = Inr None"
proof -
  let ?cn = "mk_node onnx_Conv [0, 1] [6] [(''group'', IntAttr 1)] [] (Some 0)"
  let ?cv = "mk_val 2 0 [(3, 0)]"
  let ?bn = "mk_node onnx_BatchNormalization [6, 2, 3, 4, 5] [7] [(''epsilon'', FloatAttr 1)] [] (Some 0)"
  let ?m = "conv_bn_table(5 \<mapsto> (''var'', TensorIValue 5))"
  have cn: "lookup (nodes conv_bn_graph) 2 = Some ?cn"
    and out: "n_outputs ?cn \<noteq> []"
    and cv: "lookup (vals conv_bn_graph) (n_outputs ?cn ! 0) = Some ?cv"
    and u: "v_uses ?cv = [(3, 0)]"
    and bn: "lookup (nodes conv_bn_graph) 3 = Some ?bn"
    and eps: "attr_f ?bn ''epsilon'' = Inr 1"
    by (simp_all add: conv_bn_graph_def lookup_def mk_node_def mk_val_def attr_f_def)
  have g0: "getValues conv_bn_graph 2 Map.empty = Inr []"
    by (simp add: eval_defs conv_bn_graph_def cong: eval_congs)
  have g1: "getValues conv_bn_graph 2 ?m = Inr [0]"
    and g2: "getValues conv_bn_graph 3 ?m = Inr [1, 2, 3, 5]"
    by (simp_all add: eval_defs conv_bn_graph_def conv_bn_table_def cong: eval_congs)
  have t: "lookup (tensors conv_bn_graph) ([1, 2, 3, 5] ! 0) = Some (mk_tensor [2] [6, 8])"
    "lookup (tensors conv_bn_graph) ([1, 2, 3, 5] ! 1) = Some (mk_tensor [2] [10, 20])"
    "lookup (tensors conv_bn_graph) ([1, 2, 3, 5] ! 2) = Some (mk_tensor [2] [5, 7])"
    "lookup (tensors conv_bn_graph) ([1, 2, 3, 5] ! 3) = Some \<lparr>t_dtype = Long, t_sizes = [2], t_data = [1, 3]\<rparr>"
    "lookup (tensors conv_bn_graph) ([0] ! 0) = Some (mk_tensor [2, 1, 2] [1, 2, 3, 4])"
    by (simp_all add: conv_bn_graph_def lookup_def)
  have nf: "\<not> is_floating_point \<lparr>t_dtype = Long, t_sizes = [2], t_data = [1, 3 :: int]\<rparr>"
    by (simp add: is_floating_point_def)
  note c6 = failed_precondition_is_silent_skip[OF cn out cv]
  have a: "fuseConvBatchNorm_body example_ops 0 2 conv_bn_graph Map.empty = Inr None"
    using c6[of example_ops 0 Map.empty] u bn eps g0 by blast
  have b: "fuseConvBatchNorm_body example_ops 0 2 conv_bn_graph ?m = Inr None"
    using c6[of example_ops 0 ?m] u bn eps g1 g2 t nf by force
  show ?thesis using a b by simp
qed

text \<open>
  Counterexample to C6 as stated: a candidate whose inputs are unresolved (a listed
  failure) and whose normalization node has no \<open>epsilon\<close> attribute is not skipped; the
  attribute is read before the inputs are resolved, and the read throws.
\<close>

theorem failed_precondition_counterexample:
  "getValues conv_bn_no_epsilon_graph 2 Map.empty = Inr [] \<and>
   fuseConvBatchNorm_body example_ops 0 2 conv_bn_no_epsilon_graph Map.empty = Inl AttributeError"
  by (simp add: eval_defs conv_bn_no_epsilon_graph_def conv_bn_graph_def cong: eval_congs)

text \<open>
  C7, amended. A skip is local: when the body of the loop skips a Conv candidate, the
  walk goes on at the next node with the heap and the table it had. An error is not
  local: when the body throws, the walk ends with that error. For a Conv whose single
  consumer is a BatchNormalization with as many outputs, the body throws when the
  \<open>epsilon\<close> attribute is missing or not a float, and when resolving the inputs of the
  convolution throws (a bound value that is not a tensor, a Constant without a tensor
  \<open>value\<close>).
\<close>

theorem skip_is_local_and_fault_aborts:
  assumes "lookup (nodes h) n = Some nd" and "n_blocks nd = []" and "n_kind nd = onnx_Conv"
  shows
   "(fuseConvBatchNorm_body ops b n h m = Inr None \<longrightarrow>
       fuse_loop (Suc k) ops b (Some n) (h, m) =
         rbind (lift_err (it_next h b (Some n))) (\<lambda>it. fuse_loop k ops b it (h, m))) \<and>
    (\<forall>e. fuseConvBatchNorm_body ops b n h m = Inl e \<longrightarrow>
       fuse_loop (Suc k) ops b (Some n) (h, m) = Some (Inl e)) \<and>
    (\<forall>cv bnNode off bn e.
       n_outputs nd \<noteq> [] \<and> lookup (vals h) (n_outputs nd ! 0) = Some cv \<and>
       v_uses cv = [(bnNode, off)] \<and> lookup (nodes h) bnNode = Some bn \<and>
       n_kind bn = onnx_BatchNormalization \<and> length (n_outputs nd) = length (n_outputs bn) \<longrightarrow>
       (attr_f bn ''epsilon'' = Inl e \<longrightarrow> fuseConvBatchNorm_body ops b n h m = Inl e) \<and>
       (\<forall>eps. attr_f bn ''epsilon'' = Inr eps \<and> getValues h n m = Inl e \<longrightarrow>
          fuseConvBatchNorm_body ops b n h m = Inl e))"
  using assms
  by (auto simp: fuseConvBatchNorm_body_def at_index_def Let_def lift_err_def)


theorem skip_is_local_and_fault_aborts_witness:
  "fuse_loop (Suc 3) example_ops 0 (Some 2)
     (conv_bn_graph, conv_bn_table(1 \<mapsto> (''W'', OtherIValue))) = Some (Inl NotATensor) \<and>
   fuse_loop (Suc 3) example_ops 0 (Some 2) (conv_bn_graph, Map.empty) =
     fuse_loop 3 example_ops 0 (Some 3) (conv_bn_graph, Map.empty)"
proof -
  let ?cn = "mk_node onnx_Conv [0, 1] [6] [(''group'', IntAttr 1)] [] (Some 0)"
  have cn: "lookup (nodes conv_bn_graph) 2 = Some ?cn" "n_blocks ?cn = []" "n_kind ?cn = onnx_Conv"
    by (simp_all add: conv_bn_graph_def lookup_def mk_node_def)
  note c7 = skip_is_local_and_fault_aborts[OF cn]
  have e: "fuseConvBatchNorm_body example_ops 0 2 conv_bn_graph
             (conv_bn_table(1 \<mapsto> (''W'', OtherIValue))) = Inl NotATensor"
    by (simp add: eval_defs conv_bn_graph_def conv_bn_table_def cong: eval_congs)
  have s: "fuseConvBatchNorm_body example_ops 0 2 conv_bn_graph Map.empty = Inr None"
    by (simp add: eval_defs conv_bn_graph_def cong: eval_congs)
  have n: "it_next conv_bn_graph 0 (Some 2) = Inr (Some 3)"
    by (simp add: eval_defs conv_bn_graph_def cong: eval_congs)
  have "fuse_loop (Suc 3) example_ops 0 (Some 2)
     (conv_bn_graph, conv_bn_table(1 \<mapsto> (''W'', OtherIValue))) = Some (Inl NotATensor)"
    using c7[of example_ops 0 "conv_bn_table(1 \<mapsto> (''W'', OtherIValue))" 3] e by blast
  moreover have "fuse_loop (Suc 3) example_ops 0 (Some 2) (conv_bn_graph, Map.empty) =
     fuse_loop 3 example_ops 0 (Some 3) (conv_bn_graph, Map.empty)"
    using c7[of example_ops 0 Map.empty 3] s n by (simp add: lift_err_def)
  ultimately show ?thesis by simp
qed

text \<open>
  Counterexample to C7 as stated: a Conv whose single consumer is a BatchNormalization,
  with a weight bound to a value that is not a tensor. The pass throws and the walk is
  aborted.
\<close>

theorem pass_throws_counterexample:
  "fuseConvBatchNorm 4 example_ops 0 (conv_bn_graph, conv_bn_table(1 \<mapsto> (''W'', OtherIValue))) =
     Some (Inl NotATensor)"
  by (simp add: eval_defs conv_bn_graph_def conv_bn_table_def cong: eval_congs)

text \<open>
  C10, amended. For every Conv candidate that reaches the precondition checks (its
  output has the single consumer \<open>bnNode\<close>, a normalization node with as many outputs,
  \<open>epsilon\<close> has been read and the numbers of resolved inputs are accepted), the
  tensor \<open>tW\<close> that the checks examine as the weight is the first input of the Conv, in
  input order, that resolves to a static tensor; if the data input (position 0)
  resolves, it is that one. When the checks reject it the candidate is skipped; when
  the candidate is fused, the same tensor is scaled as the weight. The second resolved
  tensor is the bias when the Conv has exactly 3 inputs; when it has not, the bias is
  computed from the tensors of the normalization alone. \<open>w\<close> and \<open>bi\<close> are the tensors
  that the folder hands to the rewriter.
\<close>

theorem weight_is_first_resolved_input:
  assumes cn: "lookup (nodes h) oldConv = Some cn"
    and co: "n_outputs cn \<noteq> []" "lookup (vals h) (n_outputs cn ! 0) = Some cv"
      "v_uses cv = [(bnNode, off)]"
    and bn: "lookup (nodes h) bnNode = Some bn" "n_kind bn = onnx_BatchNormalization"
      "length (n_outputs cn) = length (n_outputs bn)"
    and eps: "attr_f bn ''epsilon'' = Inr eps"
    and gc: "getValues h oldConv m = Inr cvs" "cvs \<noteq> []"
      "length (n_inputs cn) = 3 \<longrightarrow> length cvs = 2"
    and gb: "getValues h bnNode m = Inr bvs" "length bvs = 4"
  shows "\<exists>tW tScale tB tMean tVar.
      (\<exists>i<length (n_inputs cn).
          resolve_input h m (n_inputs cn ! i) = Inr (Some (cvs ! 0)) \<and>
          (\<forall>j<i. resolve_input h m (n_inputs cn ! j) = Inr None)) \<and>
      (\<forall>r0. n_inputs cn \<noteq> [] \<and> resolve_input h m (n_inputs cn ! 0) = Inr (Some r0) \<longrightarrow>
            cvs ! 0 = r0) \<and>
      lookup (tensors h) (cvs ! 0) = Some tW \<and>
      lookup (tensors h) (bvs ! 0) = Some tScale \<and> lookup (tensors h) (bvs ! 1) = Some tB \<and>
      lookup (tensors h) (bvs ! 2) = Some tMean \<and> lookup (tensors h) (bvs ! 3) = Some tVar \<and>
      (fold_checks tScale tB tMean tVar tW \<longrightarrow>
         fuseConvBatchNorm_body ops b oldConv h m = Inr None) \<and>
      (\<forall>h' m'. fuseConvBatchNorm_body ops b oldConv h m = Inr (Some (h', m')) \<longrightarrow>
         \<not> fold_checks tScale tB tMean tVar tW \<and>
         (\<exists>h1 w bi tScale' tBias.
            fold_conv_bn ops h cvs bvs eps (length (n_inputs cn) = 3) = Inr (Some (h1, w, bi)) \<and>
            rewrite_conv_bn b oldConv bnNode w bi h1 m = Inr (h', m') \<and>
            broadcast_vec ops (s_div ops) tScale (sqrt_tensor ops (add_scalar ops tVar eps)) =
              Inr tScale' \<and>
            lookup (tensors h') w = Some (scale_rows ops tW tScale') \<and>
            lookup (tensors h') bi = Some tBias \<and>
            (if length (n_inputs cn) = 3
             then length cvs = 2 \<and>
                  (\<exists>tConvB t1 t2. lookup (tensors h) (cvs ! 1) = Some tConvB \<and>
                     broadcast_vec ops (s_sub ops) tConvB tMean = Inr t1 \<and>
                     broadcast_vec ops (s_mul ops) t1 tScale' = Inr t2 \<and>
                     broadcast_vec ops (s_add ops) t2 tB = Inr tBias)
             else (\<exists>tMean'. broadcast_vec ops (s_mul ops) tMean tScale' = Inr tMean' \<and>
                     broadcast_vec ops (s_sub ops) tB tMean' = Inr tBias))))"
proof -
  have live: "\<And>q. q \<in> set bvs \<union> set cvs \<Longrightarrow> q < fresh (tensors h)"
    using gc(1) gb(1) by (auto dest: getValues_live)
  from gc(1) cn have gl: "getValues_loop h m (n_inputs cn) = Inr cvs"
    by (simp add: getValues_def)
  obtain c0 cs where cvs: "cvs = c0 # cs" using gc(2) by (cases cvs) auto
  have first: "\<exists>i<length (n_inputs cn).
          resolve_input h m (n_inputs cn ! i) = Inr (Some (cvs ! 0)) \<and>
          (\<forall>j<i. resolve_input h m (n_inputs cn ! j) = Inr None)"
    using getValues_loop_first[OF gl[unfolded cvs]] by (simp add: cvs)
  have dat: "\<forall>r0. n_inputs cn \<noteq> [] \<and> resolve_input h m (n_inputs cn ! 0) = Inr (Some r0) \<longrightarrow>
            cvs ! 0 = r0"
    using getValues_loop_data_first[OF gl] by blast
  have hb: "length (n_inputs cn) = 3 \<Longrightarrow> length cvs = 2" using gc(3) by simp
  have mem: "cvs ! 0 \<in> set cvs" "bvs ! 0 \<in> set bvs" "bvs ! 1 \<in> set bvs" "bvs ! 2 \<in> set bvs"
    "bvs ! 3 \<in> set bvs"
    using gc(2) gb(2) by (auto simp: cvs)
  obtain tW tScale tB tMean tVar where
    t: "lookup (tensors h) (cvs ! 0) = Some tW" "lookup (tensors h) (bvs ! 0) = Some tScale"
    "lookup (tensors h) (bvs ! 1) = Some tB" "lookup (tensors h) (bvs ! 2) = Some tMean"
    "lookup (tensors h) (bvs ! 3) = Some tVar"
    using getValues_Some[OF gc(1) mem(1)] getValues_Some[OF gb(1) mem(2)]
      getValues_Some[OF gb(1) mem(3)] getValues_Some[OF gb(1) mem(4)]
      getValues_Some[OF gb(1) mem(5)] by blast
  note body = body_at_checks[OF cn co bn eps gc gb, of ops b]
  have skip: "fuseConvBatchNorm_body ops b oldConv h m = Inr None"
    if "fold_checks tScale tB tMean tVar tW"
    unfolding body using fold_conv_bn_skip[OF t(2-5) t(1) that] by simp
  have fused: "\<not> fold_checks tScale tB tMean tVar tW \<and>
         (\<exists>h1 w bi tScale' tBias.
            fold_conv_bn ops h cvs bvs eps (length (n_inputs cn) = 3) = Inr (Some (h1, w, bi)) \<and>
            rewrite_conv_bn b oldConv bnNode w bi h1 m = Inr (h', m') \<and>
            broadcast_vec ops (s_div ops) tScale (sqrt_tensor ops (add_scalar ops tVar eps)) =
              Inr tScale' \<and>
            lookup (tensors h') w = Some (scale_rows ops tW tScale') \<and>
            lookup (tensors h') bi = Some tBias \<and>
            (if length (n_inputs cn) = 3
             then length cvs = 2 \<and>
                  (\<exists>tConvB t1 t2. lookup (tensors h) (cvs ! 1) = Some tConvB \<and>
                     broadcast_vec ops (s_sub ops) tConvB tMean = Inr t1 \<and>
                     broadcast_vec ops (s_mul ops) t1 tScale' = Inr t2 \<and>
                     broadcast_vec ops (s_add ops) t2 tB = Inr tBias)
             else (\<exists>tMean'. broadcast_vec ops (s_mul ops) tMean tScale' = Inr tMean' \<and>
                     broadcast_vec ops (s_sub ops) tB tMean' = Inr tBias)))"
    if r: "fuseConvBatchNorm_body ops b oldConv h m = Inr (Some (h', m'))" for h' m'
  proof -
    from r[unfolded body] obtain h1 w bi where
      fo: "fold_conv_bn ops h cvs bvs eps (length (n_inputs cn) = 3) = Inr (Some (h1, w, bi))" and
      rw: "rewrite_conv_bn b oldConv bnNode w bi h1 m = Inr (h', m')"
      by (auto simp: ebind_eq_Inr split: option.splits)
    have th: "tensors h' = tensors h1" using rw by (rule rewrite_conv_bn_tensors)
    obtain tScale2 tB2 tMean2 tVar2 tW2 tScale' tBias where
      f1: "lookup (tensors h) (bvs ! 0) = Some tScale2" and
      f2: "lookup (tensors h) (bvs ! 1) = Some tB2" and
      f3: "lookup (tensors h) (bvs ! 2) = Some tMean2" and
      f4: "lookup (tensors h) (bvs ! 3) = Some tVar2" and
      f5: "lookup (tensors h) (cvs ! 0) = Some tW2" and
      f6: "\<not> fold_checks tScale2 tB2 tMean2 tVar2 tW2" and
      f7: "broadcast_vec ops (s_div ops) tScale2 (sqrt_tensor ops (add_scalar ops tVar2 eps)) = Inr tScale'" and
      f8: "lookup (tensors h1) w = Some (scale_rows ops tW2 tScale')" and
      f9: "lookup (tensors h1) bi = Some tBias" and
      f10: "if length (n_inputs cn) = 3
       then \<exists>tConvB t1 t2. lookup (tensors h) (cvs ! 1) = Some tConvB \<and>
              broadcast_vec ops (s_sub ops) tConvB tMean2 = Inr t1 \<and>
              broadcast_vec ops (s_mul ops) t1 tScale' = Inr t2 \<and>
              broadcast_vec ops (s_add ops) t2 tB2 = Inr tBias
       else \<exists>tMean'. broadcast_vec ops (s_mul ops) tMean2 tScale' = Inr tMean' \<and>
              broadcast_vec ops (s_sub ops) tB2 tMean' = Inr tBias"
      by (rule fold_conv_bnE[OF fo live gb(2) gc(2) hb])
    have e: "tScale2 = tScale" "tB2 = tB" "tMean2 = tMean" "tVar2 = tVar" "tW2 = tW"
      using f1 f2 f3 f4 f5 t by simp_all
    have bias: "(if length (n_inputs cn) = 3
             then length cvs = 2 \<and>
                  (\<exists>tConvB t1 t2. lookup (tensors h) (cvs ! 1) = Some tConvB \<and>
                     broadcast_vec ops (s_sub ops) tConvB tMean = Inr t1 \<and>
                     broadcast_vec ops (s_mul ops) t1 tScale' = Inr t2 \<and>
                     broadcast_vec ops (s_add ops) t2 tB = Inr tBias)
             else (\<exists>tMean'. broadcast_vec ops (s_mul ops) tMean tScale' = Inr tMean' \<and>
                     broadcast_vec ops (s_sub ops) tB tMean' = Inr tBias))"
    proof (cases "length (n_inputs cn) = 3")
      case True
      with f10 hb show ?thesis unfolding e by simp
    next
      case False
      with f10 show ?thesis unfolding e by simp
    qed
    have "fold_conv_bn ops h cvs bvs eps (length (n_inputs cn) = 3) = Inr (Some (h1, w, bi)) \<and>
            rewrite_conv_bn b oldConv bnNode w bi h1 m = Inr (h', m') \<and>
            broadcast_vec ops (s_div ops) tScale (sqrt_tensor ops (add_scalar ops tVar eps)) =
              Inr tScale' \<and>
            lookup (tensors h') w = Some (scale_rows ops tW tScale') \<and>
            lookup (tensors h') bi = Some tBias"
      using fo rw f7 f8 f9 unfolding e th by (intro conjI) assumption+
    then show ?thesis using f6 bias unfolding e by blast
  qed
  show ?thesis
    using first dat t skip fused by blast
qed

theorem weight_is_first_resolved_input_witness:
  "getValues conv_bn_graph 2 (conv_bn_table(0 \<mapsto> (''x'', TensorIValue 6))) = Inr [6, 0] \<and>
   (\<exists>h' m'. fuseConvBatchNorm_body example_ops 0 2 conv_bn_graph
        (conv_bn_table(0 \<mapsto> (''x'', TensorIValue 6))) = Inr (Some (h', m')) \<and>
      lookup (tensors h') 11 = Some (scale_rows example_ops (mk_tensor [2, 2, 1] [1, 1, 1, 1])
                                       (mk_tensor [2] [3, 2]))) \<and>
   getValues conv_bn_graph 2 (conv_bn_table(0 \<mapsto> (''x'', TensorIValue 1))) = Inr [1, 0] \<and>
   fold_checks (mk_tensor [2] [6, 8]) (mk_tensor [2] [10, 20]) (mk_tensor [2] [5, 7])
     (mk_tensor [2] [1, 3]) (mk_tensor [2] [6, 8]) \<and>
   fuseConvBatchNorm_body example_ops 0 2 conv_bn_graph
        (conv_bn_table(0 \<mapsto> (''x'', TensorIValue 1))) = Inr None"
proof -
  let ?m1 = "conv_bn_table(0 \<mapsto> (''x'', TensorIValue 6))"
  let ?m2 = "conv_bn_table(0 \<mapsto> (''x'', TensorIValue 1))"
  let ?cn = "mk_node onnx_Conv [0, 1] [6] [(''group'', IntAttr 1)] [] (Some 0)"
  let ?bn = "mk_node onnx_BatchNormalization [6, 2, 3, 4, 5] [7] [(''epsilon'', FloatAttr 1)] []
                 (Some 0)"
  have g: "lookup (nodes conv_bn_graph) 2 = Some ?cn" "n_outputs ?cn \<noteq> []"
    "lookup (vals conv_bn_graph) (n_outputs ?cn ! 0) = Some (mk_val 2 0 [(3, 0)])"
    "v_uses (mk_val 2 0 [(3, 0)]) = [(3, 0)]"
    "lookup (nodes conv_bn_graph) 3 = Some ?bn" "n_kind ?bn = onnx_BatchNormalization"
    "length (n_outputs ?cn) = length (n_outputs ?bn)"
    "attr_f ?bn ''epsilon'' = Inr 1"
    by (simp_all add: conv_bn_graph_def lookup_def mk_node_def mk_val_def attr_f_def)
  have v1: "getValues conv_bn_graph 2 ?m1 = Inr [6, 0]" "[6, 0] \<noteq> ([] :: nat list)"
    "length (n_inputs ?cn) = 3 \<longrightarrow> length [6 :: nat, 0] = 2"
    "getValues conv_bn_graph 3 ?m1 = Inr [1, 2, 3, 4]" "length [1 :: nat, 2, 3, 4] = 4"
    by (simp_all add: eval_defs conv_bn_graph_def conv_bn_table_def cong: eval_congs)
  have v2: "getValues conv_bn_graph 2 ?m2 = Inr [1, 0]" "[1, 0] \<noteq> ([] :: nat list)"
    "length (n_inputs ?cn) = 3 \<longrightarrow> length [1 :: nat, 0] = 2"
    "getValues conv_bn_graph 3 ?m2 = Inr [1, 2, 3, 4]" "length [1 :: nat, 2, 3, 4] = 4"
    by (simp_all add: eval_defs conv_bn_graph_def conv_bn_table_def cong: eval_congs)
  have t: "lookup (tensors conv_bn_graph) 6 = Some (mk_tensor [2, 2, 1] [1, 1, 1, 1])"
    "lookup (tensors conv_bn_graph) 1 = Some (mk_tensor [2] [6, 8])"
    "lookup (tensors conv_bn_graph) 2 = Some (mk_tensor [2] [10, 20])"
    "lookup (tensors conv_bn_graph) 3 = Some (mk_tensor [2] [5, 7])"
    "lookup (tensors conv_bn_graph) 4 = Some (mk_tensor [2] [1, 3])"
    by (simp_all add: conv_bn_graph_def lookup_def)
  have "\<exists>h' m'. fuseConvBatchNorm_body example_ops 0 2 conv_bn_graph ?m1 = Inr (Some (h', m'))"
    by (simp add: eval_defs conv_bn_graph_def conv_bn_table_def cong: eval_congs)
  then obtain h' m' where
    e: "fuseConvBatchNorm_body example_ops 0 2 conv_bn_graph ?m1 = Inr (Some (h', m'))"
    by blast
  have sc: "broadcast_vec example_ops (s_div example_ops) (mk_tensor [2] [6, 8])
        (sqrt_tensor example_ops (add_scalar example_ops (mk_tensor [2] [1, 3]) 1)) =
      Inr (mk_tensor [2] [3, 2])"
    by (simp add: eval_defs)
  from weight_is_first_resolved_input[OF g v1, of example_ops 0] t e sc
  have a: "\<exists>w. lookup (tensors h') w = Some (scale_rows example_ops (mk_tensor [2, 2, 1] [1, 1, 1, 1])
                                       (mk_tensor [2] [3, 2])) \<and>
      (\<exists>h1 bi. fold_conv_bn example_ops conv_bn_graph [6, 0] [1, 2, 3, 4] 1
               (length (n_inputs ?cn) = 3) = Inr (Some (h1, w, bi)))"
    by (auto simp: nth_Cons')
  have fo: "\<exists>h1 bi. fold_conv_bn example_ops conv_bn_graph [6, 0] [1, 2, 3, 4] 1
               (length (n_inputs ?cn) = 3) = Inr (Some (h1, 11, bi))"
    by (simp add: eval_defs conv_bn_graph_def cong: eval_congs)
  have a': "lookup (tensors h') 11 = Some (scale_rows example_ops (mk_tensor [2, 2, 1] [1, 1, 1, 1])
                                       (mk_tensor [2] [3, 2]))"
    using a fo by auto
  have fc: "fold_checks (mk_tensor [2] [6, 8]) (mk_tensor [2] [10, 20]) (mk_tensor [2] [5, 7])
     (mk_tensor [2] [1, 3]) (mk_tensor [2] [6, 8])"
    by (simp add: fold_checks_def dim_def mk_tensor_def)
  from weight_is_first_resolved_input[OF g v2, of example_ops 0] t fc
  have b: "fuseConvBatchNorm_body example_ops 0 2 conv_bn_graph ?m2 = Inr None"
    by (auto simp: nth_Cons')
  show ?thesis using v1(1) v2(1) e a' fc b by blast
qed

text \<open>
  Counterexample to C10 as stated: \<open>Conv(x, W)\<close> with both inputs bound. The data tensor
  (tensor 6) is scaled as the weight, and the second resolved tensor (\<open>W\<close>, tensor 0, of
  shape \<open>[2, 1, 2]\<close>) is not the bias: the new bias is \<open>B - mean * scale / sqrt (var + epsilon)\<close>
  of shape \<open>[2]\<close>.
\<close>

theorem second_resolved_not_bias_counterexample:
  "case fuseConvBatchNorm_body example_ops 0 2 conv_bn_graph
          (conv_bn_table(0 \<mapsto> (''x'', TensorIValue 6))) of
     Inr (Some (h', m')) \<Rightarrow>
       getValues conv_bn_graph 2 (conv_bn_table(0 \<mapsto> (''x'', TensorIValue 6))) = Inr [6, 0] \<and>
       m' 9 = Some (''9'', TensorIValue 11) \<and> m' 10 = Some (''10'', TensorIValue 12) \<and>
       lookup (tensors h') 11 = Some (mk_tensor [2, 2, 1] [3, 3, 2, 2]) \<and>
       lookup (tensors h') 12 = Some (mk_tensor [2] [- 5, 6])
   | _ \<Rightarrow> False"
  by (simp add: eval_defs conv_bn_graph_def conv_bn_table_def cong: eval_congs)

text \<open>
  C4, at the failing input. The fusion is performed inside the sub-block (block 1) of
  \<open>nested_graph\<close>. The new weight (value 10) becomes an output of the root block's param
  node (node 0), a graph-level input; the new bias (value 11) becomes an output of the
  sub-block's param node (node 3), an input of the sub-block and not of the graph. Both
  are wired into the new Conv (node 7) and bound in the table.
\<close>

theorem nested_fusion_bias_is_block_input:
  "case fuseConvBatchNorm 8 example_ops 0 (nested_graph, conv_bn_table) of
     Some (Inr (h', m')) \<Rightarrow>
       map_option n_outputs (lookup (nodes h') 0) = Some [0, 1, 2, 3, 4, 5, 10] \<and>
       map_option n_outputs (lookup (nodes h') 3) = Some [11] \<and>
       map_option n_inputs (lookup (nodes h') 7) = Some [0, 10, 11] \<and>
       map_option v_node (lookup (vals h') 10) = Some 0 \<and>
       map_option v_node (lookup (vals h') 11) = Some 3 \<and>
       m' 10 = Some (''10'', TensorIValue 11) \<and>
       m' 11 = Some (''11'', TensorIValue 12)
   | _ \<Rightarrow> False"
  by (simp add: eval_defs nested_graph_def conv_bn_graph_def conv_bn_table_def cong: eval_congs)

text \<open>
  C2. On a fusion, with the validated tensors \<open>tW\<close> (the weight), \<open>tScale\<close>, \<open>tB\<close>,
  \<open>tMean\<close>, \<open>tVar\<close> of the normalization (each of shape \<open>[c]\<close>) and the scalar \<open>eps\<close>,
  the folder computes the scale factor \<open>tScale / sqrt (tVar + eps)\<close> componentwise
  (\<open>tScale'\<close>). The new weight \<open>tW'\<close> has the shape of \<open>tW\<close> and, for every output channel
  \<open>i < c\<close> and every position \<open>k\<close> of the slice, \<open>tW'[i, k] = tW[i, k] * scale_factor i\<close>.
  When the convolution has 3 inputs the new bias is \<open>(tConvB - tMean) * tScale' + tB\<close>
  with broadcasting, which for a bias of shape \<open>[c]\<close> is
  \<open>(tConvB[i] - tMean[i]) * scale_factor i + tB[i]\<close>; otherwise it is
  \<open>tB[i] - tMean[i] * scale_factor i\<close>. \<open>w\<close> and \<open>bi\<close> are the tensors that the folder
  hands to the rewriter as the new weight and the new bias.
\<close>

theorem fold_formulas:
  assumes "fuseConvBatchNorm_body ops b oldConv h m = Inr (Some (h', m'))" and "tensors_ok h"
  shows "\<exists>cn bnNode bn cvs bvs eps h1 w bi tW tScale tB tMean tVar tScale' tW' tBias c.
      lookup (nodes h) oldConv = Some cn \<and> lookup (nodes h) bnNode = Some bn \<and>
      attr_f bn ''epsilon'' = Inr eps \<and>
      getValues h oldConv m = Inr cvs \<and> getValues h bnNode m = Inr bvs \<and>
      fold_conv_bn ops h cvs bvs eps (length (n_inputs cn) = 3) = Inr (Some (h1, w, bi)) \<and>
      rewrite_conv_bn b oldConv bnNode w bi h1 m = Inr (h', m') \<and>
      lookup (tensors h) (cvs ! 0) = Some tW \<and>
      lookup (tensors h) (bvs ! 0) = Some tScale \<and> lookup (tensors h) (bvs ! 1) = Some tB \<and>
      lookup (tensors h) (bvs ! 2) = Some tMean \<and> lookup (tensors h) (bvs ! 3) = Some tVar \<and>
      t_sizes tScale = [c] \<and> t_sizes tB = [c] \<and> t_sizes tMean = [c] \<and> t_sizes tVar = [c] \<and>
      2 < length (t_sizes tW) \<and> hd (t_sizes tW) = c \<and>
      t_sizes tScale' = [c] \<and> t_data tScale' = map (scale_factor ops tScale tVar eps) [0 ..< c] \<and>
      lookup (tensors h') w = Some tW' \<and> lookup (tensors h') bi = Some tBias \<and>
      t_sizes tW' = t_sizes tW \<and>
      (\<forall>i<c. \<forall>k<prod_list (tl (t_sizes tW)).
          t_data tW' ! (i * prod_list (tl (t_sizes tW)) + k) =
            s_mul ops (t_data tW ! (i * prod_list (tl (t_sizes tW)) + k))
              (scale_factor ops tScale tVar eps i)) \<and>
      (if length (n_inputs cn) = 3
       then \<exists>tConvB t1 t2.
              lookup (tensors h) (cvs ! 1) = Some tConvB \<and>
              broadcast_vec ops (s_sub ops) tConvB tMean = Inr t1 \<and>
              broadcast_vec ops (s_mul ops) t1 tScale' = Inr t2 \<and>
              broadcast_vec ops (s_add ops) t2 tB = Inr tBias \<and>
              (t_sizes tConvB = [c] \<longrightarrow>
                 t_sizes tBias = [c] \<and>
                 (\<forall>i<c. t_data tBias ! i =
                    s_add ops
                      (s_mul ops (s_sub ops (t_data tConvB ! i) (t_data tMean ! i))
                         (scale_factor ops tScale tVar eps i))
                      (t_data tB ! i)))
       else t_sizes tBias = [c] \<and>
            (\<forall>i<c. t_data tBias ! i =
               s_sub ops (t_data tB ! i)
                 (s_mul ops (t_data tMean ! i) (scale_factor ops tScale tVar eps i))))"
proof -
  from assms(1) obtain cn cv bnNode off bn eps cvs bvs h1 w bi where
    cn: "lookup (nodes h) oldConv = Some cn" and
    bn: "lookup (nodes h) bnNode = Some bn" and
    ep: "attr_f bn ''epsilon'' = Inr eps" and
    gc: "getValues h oldConv m = Inr cvs" "cvs \<noteq> []" "length (n_inputs cn) = 3 \<longrightarrow> length cvs = 2" and
    gb: "getValues h bnNode m = Inr bvs" "length bvs = 4" and
    fo: "fold_conv_bn ops h cvs bvs eps (length (n_inputs cn) = 3) = Inr (Some (h1, w, bi))" and
    rw: "rewrite_conv_bn b oldConv bnNode w bi h1 m = Inr (h', m')"
    by (elim bodyE) blast
  have live: "\<And>q. q \<in> set bvs \<union> set cvs \<Longrightarrow> q < fresh (tensors h)"
    using gc(1) gb(1) by (auto dest: getValues_live)
  have t: "tensors h' = tensors h1" using rw by (rule rewrite_conv_bn_tensors)
  have hb: "length (n_inputs cn) = 3 \<Longrightarrow> length cvs = 2" using gc(3) by simp
  obtain tScale tB tMean tVar tW tScale' tBias where
    f1: "lookup (tensors h) (bvs ! 0) = Some tScale" and
    f2: "lookup (tensors h) (bvs ! 1) = Some tB" and
    f3: "lookup (tensors h) (bvs ! 2) = Some tMean" and
    f4: "lookup (tensors h) (bvs ! 3) = Some tVar" and
    f5: "lookup (tensors h) (cvs ! 0) = Some tW" and
    f6: "\<not> fold_checks tScale tB tMean tVar tW" and
    f7: "broadcast_vec ops (s_div ops) tScale (sqrt_tensor ops (add_scalar ops tVar eps)) = Inr tScale'" and
    f8: "lookup (tensors h1) w = Some (scale_rows ops tW tScale')" and
    f9: "lookup (tensors h1) bi = Some tBias" and
    f10: "if length (n_inputs cn) = 3
     then \<exists>tConvB t1 t2. lookup (tensors h) (cvs ! 1) = Some tConvB \<and>
            broadcast_vec ops (s_sub ops) tConvB tMean = Inr t1 \<and>
            broadcast_vec ops (s_mul ops) t1 tScale' = Inr t2 \<and>
            broadcast_vec ops (s_add ops) t2 tB = Inr tBias
     else \<exists>tMean'. broadcast_vec ops (s_mul ops) tMean tScale' = Inr tMean' \<and>
            broadcast_vec ops (s_sub ops) tB tMean' = Inr tBias"
    by (rule fold_conv_bnE[OF fo live gb(2) gc(2) hb])
  define c where "c = size0 tScale"
  have ok: "tensor_ok tScale" "tensor_ok tB" "tensor_ok tMean" "tensor_ok tVar" "tensor_ok tW"
    using assms(2) f1 f2 f3 f4 f5 by (auto dest: tensors_okD)
  have d1: "dim tScale = 1" "dim tB = 1" "dim tMean = 1" "dim tVar = 1"
    and se: "size0 tB = c" "size0 tMean = c" "size0 tVar = c"
    using f6 by (auto simp: fold_checks_def c_def)
  have sz: "t_sizes tScale = [c]" "t_sizes tB = [c]" "t_sizes tMean = [c]" "t_sizes tVar = [c]"
    using d1[THEN dim1_sizes] se by (simp_all add: c_def)
  have ln: "length (t_data tScale) = c" "length (t_data tB) = c" "length (t_data tMean) = c"
    "length (t_data tVar) = c"
    using ok sz by (simp_all add: tensor_ok_def)
  have w2: "2 < length (t_sizes tW)" and w0: "size0 tW = c"
    using f6 by (auto simp: fold_checks_def c_def dim_def)
  obtain rest where wsz: "t_sizes tW = c # rest"
    using w2 w0 by (cases "t_sizes tW") (auto simp: size0_def)
  have sc: "tScale' = \<lparr>t_dtype = result_type ops (t_dtype tScale) (t_dtype tVar), t_sizes = [c],
          t_data = map (scale_factor ops tScale tVar eps) [0 ..< c]\<rparr>"
    using f7 scale_factor_tensor[OF sz(1) sz(4) ln(1) ln(4), of ops eps] by simp
  have sc1: "t_sizes tScale' = [c]" "t_data tScale' = map (scale_factor ops tScale tVar eps) [0 ..< c]"
    "length (t_data tScale') = c"
    by (simp_all add: sc)
  have sf: "\<And>i. i < c \<Longrightarrow> t_data tScale' ! i = scale_factor ops tScale tVar eps i"
    by (simp add: sc)
  note sr = scale_rows_props[OF ok(5) wsz, of ops tScale']
  have wt: "\<forall>i<c. \<forall>k<prod_list (tl (t_sizes tW)).
          t_data (scale_rows ops tW tScale') ! (i * prod_list (tl (t_sizes tW)) + k) =
            s_mul ops (t_data tW ! (i * prod_list (tl (t_sizes tW)) + k))
              (scale_factor ops tScale tVar eps i)"
    using sr(3) sf by (simp add: wsz)
  have bias: "(if length (n_inputs cn) = 3
       then \<exists>tConvB t1 t2.
              lookup (tensors h) (cvs ! 1) = Some tConvB \<and>
              broadcast_vec ops (s_sub ops) tConvB tMean = Inr t1 \<and>
              broadcast_vec ops (s_mul ops) t1 tScale' = Inr t2 \<and>
              broadcast_vec ops (s_add ops) t2 tB = Inr tBias \<and>
              (t_sizes tConvB = [c] \<longrightarrow>
                 t_sizes tBias = [c] \<and>
                 (\<forall>i<c. t_data tBias ! i =
                    s_add ops
                      (s_mul ops (s_sub ops (t_data tConvB ! i) (t_data tMean ! i))
                         (scale_factor ops tScale tVar eps i))
                      (t_data tB ! i)))
       else t_sizes tBias = [c] \<and>
            (\<forall>i<c. t_data tBias ! i =
               s_sub ops (t_data tB ! i)
                 (s_mul ops (t_data tMean ! i) (scale_factor ops tScale tVar eps i))))"
  proof (cases "length (n_inputs cn) = 3")
    case True
    with f10 obtain tConvB t1 t2 where
      b0: "lookup (tensors h) (cvs ! 1) = Some tConvB" and
      b1: "broadcast_vec ops (s_sub ops) tConvB tMean = Inr t1" and
      b2: "broadcast_vec ops (s_mul ops) t1 tScale' = Inr t2" and
      b3: "broadcast_vec ops (s_add ops) t2 tB = Inr tBias"
      by auto
    have "t_sizes tBias = [c] \<and>
                 (\<forall>i<c. t_data tBias ! i =
                    s_add ops
                      (s_mul ops (s_sub ops (t_data tConvB ! i) (t_data tMean ! i))
                         (scale_factor ops tScale tVar eps i))
                      (t_data tB ! i))" if s: "t_sizes tConvB = [c]"
    proof -
      have "tensor_ok tConvB" using assms(2) b0 by (rule tensors_okD)
      then have l: "length (t_data tConvB) = c" using s by (simp add: tensor_ok_def)
      have e1: "t_sizes t1 = [c]" "t_data t1 = map (\<lambda>j. s_sub ops (t_data tConvB ! j) (t_data tMean ! j)) [0 ..< c]"
        using b1 broadcast_vec_1d[OF s sz(3) l, of ops "s_sub ops"] by auto
      have l1: "length (t_data t1) = c" by (simp add: e1)
      have e2: "t_sizes t2 = [c]" "t_data t2 = map (\<lambda>j. s_mul ops (t_data t1 ! j) (t_data tScale' ! j)) [0 ..< c]"
        using b2 broadcast_vec_1d[OF e1(1) sc1(1) l1, of ops "s_mul ops"] by auto
      have l2: "length (t_data t2) = c" by (simp add: e2)
      have e3: "t_sizes tBias = [c]" "t_data tBias = map (\<lambda>j. s_add ops (t_data t2 ! j) (t_data tB ! j)) [0 ..< c]"
        using b3 broadcast_vec_1d[OF e2(1) sz(2) l2, of ops "s_add ops"] by auto
      show ?thesis
        by (simp add: e3 e2 e1 sf)
    qed
    with True b0 b1 b2 b3 show ?thesis by auto
  next
    case False
    with f10 obtain tMean' where
      b1: "broadcast_vec ops (s_mul ops) tMean tScale' = Inr tMean'" and
      b2: "broadcast_vec ops (s_sub ops) tB tMean' = Inr tBias"
      by auto
    have e1: "t_sizes tMean' = [c]" "t_data tMean' = map (\<lambda>j. s_mul ops (t_data tMean ! j) (t_data tScale' ! j)) [0 ..< c]"
      using b1 broadcast_vec_1d[OF sz(3) sc1(1) ln(3), of ops "s_mul ops"] by auto
    have e2: "t_sizes tBias = [c]" "t_data tBias = map (\<lambda>j. s_sub ops (t_data tB ! j) (t_data tMean' ! j)) [0 ..< c]"
      using b2 broadcast_vec_1d[OF sz(2) e1(1) ln(2), of ops "s_sub ops"] by auto
    show ?thesis using False by (simp add: e2 e1 sf)
  qed
  have hdw: "hd (t_sizes tW) = c" by (simp add: wsz)
  have "lookup (nodes h) oldConv = Some cn \<and> lookup (nodes h) bnNode = Some bn \<and>
      attr_f bn ''epsilon'' = Inr eps \<and>
      getValues h oldConv m = Inr cvs \<and> getValues h bnNode m = Inr bvs \<and>
      fold_conv_bn ops h cvs bvs eps (length (n_inputs cn) = 3) = Inr (Some (h1, w, bi)) \<and>
      rewrite_conv_bn b oldConv bnNode w bi h1 m = Inr (h', m') \<and>
      lookup (tensors h) (cvs ! 0) = Some tW \<and>
      lookup (tensors h) (bvs ! 0) = Some tScale \<and> lookup (tensors h) (bvs ! 1) = Some tB \<and>
      lookup (tensors h) (bvs ! 2) = Some tMean \<and> lookup (tensors h) (bvs ! 3) = Some tVar \<and>
      t_sizes tScale = [c] \<and> t_sizes tB = [c] \<and> t_sizes tMean = [c] \<and> t_sizes tVar = [c] \<and>
      2 < length (t_sizes tW) \<and> hd (t_sizes tW) = c \<and>
      t_sizes tScale' = [c] \<and> t_data tScale' = map (scale_factor ops tScale tVar eps) [0 ..< c] \<and>
      lookup (tensors h') w = Some (scale_rows ops tW tScale') \<and> lookup (tensors h') bi = Some tBias \<and>
      t_sizes (scale_rows ops tW tScale') = t_sizes tW \<and>
      (\<forall>i<c. \<forall>k<prod_list (tl (t_sizes tW)).
          t_data (scale_rows ops tW tScale') ! (i * prod_list (tl (t_sizes tW)) + k) =
            s_mul ops (t_data tW ! (i * prod_list (tl (t_sizes tW)) + k))
              (scale_factor ops tScale tVar eps i)) \<and>
      (if length (n_inputs cn) = 3
       then \<exists>tConvB t1 t2.
              lookup (tensors h) (cvs ! 1) = Some tConvB \<and>
              broadcast_vec ops (s_sub ops) tConvB tMean = Inr t1 \<and>
              broadcast_vec ops (s_mul ops) t1 tScale' = Inr t2 \<and>
              broadcast_vec ops (s_add ops) t2 tB = Inr tBias \<and>
              (t_sizes tConvB = [c] \<longrightarrow>
                 t_sizes tBias = [c] \<and>
                 (\<forall>i<c. t_data tBias ! i =
                    s_add ops
                      (s_mul ops (s_sub ops (t_data tConvB ! i) (t_data tMean ! i))
                         (scale_factor ops tScale tVar eps i))
                      (t_data tB ! i)))
       else t_sizes tBias = [c] \<and>
            (\<forall>i<c. t_data tBias ! i =
               s_sub ops (t_data tB ! i)
                 (s_mul ops (t_data tMean ! i) (scale_factor ops tScale tVar eps i))))"
    using cn bn ep gc(1) gb(1) fo rw f5 f1 f2 f3 f4 sz w2 hdw sc1(1,2) f8 f9 sr(1) wt bias
    unfolding t by (intro conjI) assumption+
  then show ?thesis by blast
qed


lemma conv_bias_bn_body_runs:
  "\<exists>h' m'. fuseConvBatchNorm_body example_ops 0 2 conv_bias_bn_graph conv_bias_bn_table =
     Inr (Some (h', m'))"
  by (simp add: eval_defs conv_bias_bn_graph_def conv_bias_bn_table_def conv_bn_graph_def
        conv_bn_table_def cong: eval_congs)

lemma conv_bias_bn_folded_values:
  "case fuseConvBatchNorm_body example_ops 0 2 conv_bias_bn_graph conv_bias_bn_table of
     Inr (Some (h', m')) \<Rightarrow>
       m' 10 = Some (''10'', TensorIValue 11) \<and> m' 11 = Some (''11'', TensorIValue 13) \<and>
       lookup (tensors h') 11 = Some (mk_tensor [2, 1, 2] [3, 6, 6, 8]) \<and>
       lookup (tensors h') 13 = Some (mk_tensor [2] [13, 22])
   | _ \<Rightarrow> False"
  by (simp add: eval_defs conv_bias_bn_graph_def conv_bias_bn_table_def conv_bn_graph_def
        conv_bn_table_def cong: eval_congs)

theorem fold_formulas_witness:
  "\<exists>h' m' w bi tW' tBias.
     fuseConvBatchNorm_body example_ops 0 2 conv_bias_bn_graph conv_bias_bn_table =
       Inr (Some (h', m')) \<and>
     tensors_ok conv_bias_bn_graph \<and>
     lookup (tensors h') w = Some tW' \<and> lookup (tensors h') bi = Some tBias \<and>
     t_sizes tW' = [2, 1, 2]"
proof -
  obtain h' m' where
    e: "fuseConvBatchNorm_body example_ops 0 2 conv_bias_bn_graph conv_bias_bn_table =
          Inr (Some (h', m'))"
    using conv_bias_bn_body_runs by blast
  have ok: "tensors_ok conv_bias_bn_graph"
    by (simp add: tensors_ok_def tensor_ok_def conv_bias_bn_graph_def conv_bn_graph_def
          mk_tensor_def)
  have g: "getValues conv_bias_bn_graph 2 conv_bias_bn_table = Inr [0, 1]"
    by (simp add: eval_defs conv_bias_bn_graph_def conv_bias_bn_table_def conv_bn_graph_def
          conv_bn_table_def cong: eval_congs)
  have l: "lookup (tensors conv_bias_bn_graph) 0 = Some (mk_tensor [2, 1, 2] [1, 2, 3, 4])"
    by (simp add: conv_bias_bn_graph_def conv_bn_graph_def lookup_def)
  from fold_formulas[OF e ok] obtain cvs w bi tW tW' tBias where
    c: "getValues conv_bias_bn_graph 2 conv_bias_bn_table = Inr cvs"
      "lookup (tensors conv_bias_bn_graph) (cvs ! 0) = Some tW"
      "lookup (tensors h') w = Some tW'" "lookup (tensors h') bi = Some tBias"
      "t_sizes tW' = t_sizes tW"
    by blast
  from c(1) g have "cvs ! 0 = 0" by auto
  with c(2) l have "t_sizes tW = [2, 1, 2]" by (auto simp: mk_tensor_def)
  with c(3,4,5) e ok show ?thesis by auto
qed

text \<open>
  C5. A successful fusion inside the walk. Let the use lists of the graph be exact, let
  the param nodes of the graph and of the block \<open>b\<close> be in place, and let the loop body
  fuse at the \<open>Conv\<close> node \<open>c\<close> of the block \<open>b\<close>, a node with one output and no
  sub-block. Then \<^verbatim>\<open>it.destroyCurrent()\<close> succeeds on the state that the body returns,
  and the walk goes on from the state \<open>h2\<close> that it returns: the step of \<open>fuse_loop\<close> at
  \<open>c\<close> is the rest of the walk from \<open>h2\<close>. In \<open>h2\<close>: every place that read the output
  of the normalization node reads the output of the new \<open>Conv\<close> node, and the use list
  of that output records it; the normalization node, the original convolution node and
  the output of each are destroyed; and the use list of every remaining value is exactly
  the set of places \<open>(node, input position)\<close> where the value is an input, without
  repetition. The new node is \<open>fresh (nodes h)\<close> and its output is \<open>fresh (vals h)\<close>.
  \<^verbatim>\<open>replaceAllUsesWith\<close>, \<^verbatim>\<open>destroy\<close> and \<^verbatim>\<open>addInput\<close> are the primitives of the IR
  as modelled above.
\<close>

theorem fusion_redirects_uses_exactly:
  fixes h :: "'a heap"
  assumes inv: "wf_ir h" and pl: "param_live h (root_block h)" "param_live h b"
    and cn: "lookup (nodes h) c = Some cn" and kind: "n_kind cn = onnx_Conv"
    and nb: "n_blocks cn = []" and outs: "n_outputs cn = [co]"
    and blk0: "lookup (blocks h) b = Some blk0" and inlist: "c \<in> set (b_nodes blk0)"
    and body: "fuseConvBatchNorm_body ops b c h m = Inr (Some (h1, m1))"
    and cv: "lookup (vals h) co = Some cv"
    and bnNode: "fst (hd (v_uses cv)) = bnNode"
    and bn: "lookup (nodes h) bnNode = Some bn"
  shows "\<exists>h2 cur.
     destroyCurrent h1 b c = Inr (h2, cur) \<and>
     fuse_loop (Suc k) ops b (Some c) (h, m) =
       rbind (lift_err (it_next h2 b cur)) (\<lambda>it. fuse_loop k ops b it (h2, m1)) \<and>
     use_lists_exact h2 \<and> outputs_defined h2 \<and>
     lookup (nodes h2) c = None \<and> lookup (nodes h2) bnNode = None \<and>
     lookup (vals h2) co = None \<and> lookup (vals h2) (n_outputs bn ! 0) = None \<and>
     (\<exists>nn. lookup (nodes h2) (fresh (nodes h)) = Some nn \<and> n_kind nn = onnx_Conv \<and>
           fresh (vals h) \<in> set (n_outputs nn)) \<and>
     (\<forall>n i. n \<noteq> bnNode \<and> n \<noteq> c \<and> used h (n_outputs bn ! 0) n i \<longrightarrow>
        used h2 (fresh (vals h)) n i \<and> place h2 n i (fresh (vals h)))"
proof -
  have co0: "n_outputs cn ! 0 = co" using outs by simp
  obtain cn' cv' bnNode' off bn' h0 w bi where
    f: "lookup (nodes h) c = Some cn'" "n_outputs cn' \<noteq> []"
    "lookup (vals h) (n_outputs cn' ! 0) = Some cv'" "v_uses cv' = [(bnNode', off)]"
    "lookup (nodes h) bnNode' = Some bn'" "n_kind bn' = onnx_BatchNormalization"
    "nodes h0 = nodes h" "vals h0 = vals h" "blocks h0 = blocks h" "root_block h0 = root_block h"
    "rewrite_conv_bn b c bnNode' w bi h0 m = Inr (h1, m1)"
    by (rule body_graphE[OF body])
  have e: "cn' = cn" using f(1) cn by simp
  have e': "cv' = cv" using f(3) cv co0 e by simp
  have e'': "bnNode' = bnNode" using f(4) bnNode e' by simp
  have e''': "bn' = bn" using f(5) bn e'' by simp
  note f = f[unfolded e e' e'' e''' co0]
  have wf0: "wf_ir h0" using inv wf_ir_cong[OF f(7,8)] by simp
  obtain cn2 bn2 bb blk rblk bblk where
    g: "lookup (nodes h0) c = Some cn2" "lookup (nodes h0) bnNode = Some bn2"
    "n_inputs cn2 \<noteq> []"
    "n_owning_block bn2 = Some bb" "lookup (blocks h0) bb = Some blk" "bnNode \<in> set (b_nodes blk)"
    "lookup (blocks h0) (root_block h0) = Some rblk" "lookup (blocks h0) b = Some bblk"
    "wf_ir h1" "lookup (nodes h1) bnNode = None" "lookup (vals h1) (n_outputs bn2 ! 0) = None"
    "\<And>n i. place h0 n i (n_outputs bn2 ! 0) \<Longrightarrow> n \<noteq> bnNode \<Longrightarrow> place h1 n i (fresh (vals h0))"
    "lookup (blocks h1) bb =
       Some (blk\<lparr>b_nodes := removeAll bnNode (insert_before (fresh (nodes h0)) bnNode (b_nodes blk))\<rparr>)"
    "\<exists>nn. lookup (nodes h1) (fresh (nodes h0)) = Some nn \<and> n_kind nn = onnx_Conv \<and>
          fresh (vals h0) \<in> set (n_outputs nn)"
    "\<And>n i x. place h1 n i x \<Longrightarrow>
       n \<noteq> bnNode \<and>
       (x \<noteq> n_outputs bn2 ! 0 \<and> place h0 n i x \<or>
        x = fresh (vals h0) \<and> place h0 n i (n_outputs bn2 ! 0) \<or>
        n = fresh (nodes h0) \<and>
          x \<in> {n_inputs cn2 ! 0, fresh (vals h0), Suc (fresh (vals h0)), Suc (Suc (fresh (vals h0)))})"
    "\<And>b'. b' \<noteq> bb \<Longrightarrow> lookup (blocks h1) b' = lookup (blocks h0) b'"
    "\<And>x xv. lookup (vals h0) x = Some xv \<Longrightarrow> v_node xv \<noteq> bnNode \<Longrightarrow>
       \<exists>xv'. lookup (vals h1) x = Some xv' \<and> v_node xv' = v_node xv"
    "b_param rblk \<noteq> c \<Longrightarrow> b_param bblk \<noteq> c \<Longrightarrow> c \<noteq> bnNode \<Longrightarrow>
       \<exists>ins. lookup (nodes h1) c = Some (cn2\<lparr>n_inputs := ins\<rparr>)"
    by (rule rewrite_conv_bn_effect[OF wf0 f(11)]) (rule that)
  have e2: "cn2 = cn" "bn2 = bn" "bblk = blk0"
    using g(1,2,8) cn bn blk0 f(7,9) by simp_all
  have fr: "fresh (vals h0) = fresh (vals h)" "fresh (nodes h0) = fresh (nodes h)"
    using f(7,8) by simp_all
  note g = g[unfolded e2 fr f(7-10)]
  have ne: "c \<noteq> bnNode" using cn bn kind f(6) by auto
  have p1: "b_param rblk \<noteq> c"
    using pl(1) g(7) cn kind by (auto simp: param_live_def split: option.splits)
  have p2: "b_param blk0 \<noteq> c"
    using pl(2) g(8) cn kind by (auto simp: param_live_def split: option.splits)
  obtain ins where c1: "lookup (nodes h1) c = Some (cn\<lparr>n_inputs := ins\<rparr>)"
    using g(18)[OF p1 p2 ne] by blast
  have vc: "v_node cv = c"
    using wf_ir_output[OF inv cn, of co] cv outs by simp
  obtain cv1 where cv1: "lookup (vals h1) co = Some cv1"
    using g(17)[OF cv] vc ne by auto
  have lt: "co < fresh (vals h)" using cv by (rule lookup_Some_less)
  have nou: "\<not> place h1 n i co" for n i
  proof
    assume a: "place h1 n i co"
    from g(15)[OF a] have n: "n \<noteq> bnNode" and
      d: "place h n i co \<or> co = fresh (vals h) \<and> place h n i (n_outputs bn ! 0) \<or>
          n = fresh (nodes h) \<and>
          co \<in> {n_inputs cn ! 0, fresh (vals h), Suc (fresh (vals h)), Suc (Suc (fresh (vals h)))}"
      by (auto simp: place_cong[OF f(7)])
    have u: "place h n' i' co \<Longrightarrow> n' = bnNode" for n' i'
      using wf_ir_exact[OF inv, of co n' i'] cv f(4) by (simp add: used_def)
    from d lt consider "place h n i co" | "co = n_inputs cn ! 0" by auto
    then show False
    proof cases
      case 1
      then show False using u n by blast
    next
      case 2
      then have "place h c 0 co" using cn g(3) by (simp add: place_def)
      then show False using u ne by blast
    qed
  qed
  have un: "unused h1 co"
  proof -
    have "(n, i) \<notin> set (v_uses cv1)" for n i
      using nou[of n i] wf_ir_exact[OF g(9), of co n i] cv1 by (simp add: used_def)
    then have "v_uses cv1 = []" by (cases "v_uses cv1") auto
    then show ?thesis using cv1 by (simp add: unused_def)
  qed
  obtain h2 where d: "destroy h1 c = Inr h2"
    using destroy_succeeds[OF g(9) c1] un outs nb by auto
  have inl: "\<exists>blk1. lookup (blocks h1) b = Some blk1 \<and> c \<in> set (b_nodes blk1)"
  proof (cases "b = bb")
    case True
    then have "blk = blk0" using g(5) blk0 by simp
    then show ?thesis
      using g(13) True inlist ne g(6) by (simp add: set_insert_before)
  next
    case False
    then show ?thesis using g(16)[of b] blk0 inlist by simp
  qed
  then obtain cur where ip: "it_prev h1 b c = Inr cur"
    using list_prev_member by (fastforce simp: it_prev_def deref_def)
  have dc: "destroyCurrent h1 b c = Inr (h2, cur)"
    using ip d by (simp add: destroyCurrent_def)
  have walk: "fuse_loop (Suc k) ops b (Some c) (h, m) =
       rbind (lift_err (it_next h2 b cur)) (\<lambda>it. fuse_loop k ops b it (h2, m1))"
    using cn nb kind body dc by (simp add: lift_err_def deref_def)
  from destroy_effect[OF g(9) d] c1 have
    k: "nodes h2 = free (nodes h1) c"
      "vals_upto_uses (free_list (vals h1) [co]) (vals h2)" "wf_ir h2"
    using outs by auto
  have ltc: "c < fresh (nodes h)" using cn by (rule lookup_Some_less)
  have 1: "lookup (nodes h2) c = None" "lookup (nodes h2) bnNode = None"
    using g(10) by (simp_all add: k(1))
  have "lookup (free_list (vals h1) [co]) (n_outputs bn ! 0) = None"
    using g(11) by simp
  then have 2: "lookup (vals h2) (n_outputs bn ! 0) = None"
    by (rule vals_upto_usesD(2)[OF k(2)])
  have "lookup (free_list (vals h1) [co]) co = None"
    by (simp add: lookup_free_list)
  then have vb2: "lookup (vals h2) co = None"
    by (rule vals_upto_usesD(2)[OF k(2)])
  have 3: "\<exists>nn. lookup (nodes h2) (fresh (nodes h)) = Some nn \<and> n_kind nn = onnx_Conv \<and>
           fresh (vals h) \<in> set (n_outputs nn)"
    using g(14) ltc by (simp add: k(1))
  have 4: "used h2 (fresh (vals h)) n i \<and> place h2 n i (fresh (vals h))"
    if "n \<noteq> bnNode" "n \<noteq> c" "used h (n_outputs bn ! 0) n i" for n i
  proof -
    have "place h n i (n_outputs bn ! 0)" using that(3) wf_ir_exact[OF inv] by simp
    then have "place h0 n i (n_outputs bn ! 0)" by (simp add: place_cong[OF f(7)])
    then have "place h1 n i (fresh (vals h))" using that(1) by (rule g(12))
    then have "place h2 n i (fresh (vals h))" using place_free[OF k(1) that(2)] by simp
    then show ?thesis using wf_ir_exact[OF k(3)] by simp
  qed
  show ?thesis
    using dc walk k(3) 1 2 vb2 3 4 unfolding wf_ir_def by blast
qed

subsection \<open>The check of the use lists\<close>

theorem fusion_redirects_uses_exactly_witness:
  "wf_ir conv_bn_graph \<and> param_live conv_bn_graph 0 \<and>
   (\<exists>h1 m1 h2 cur.
      fuseConvBatchNorm_body example_ops 0 2 conv_bn_graph conv_bn_table = Inr (Some (h1, m1)) \<and>
      destroyCurrent h1 0 2 = Inr (h2, cur) \<and>
      fuse_loop (Suc 2) example_ops 0 (Some 2) (conv_bn_graph, conv_bn_table) =
        rbind (lift_err (it_next h2 0 cur)) (\<lambda>it. fuse_loop 2 example_ops 0 it (h2, m1)) \<and>
      used conv_bn_graph 7 1 0 \<and>
      use_lists_exact h2 \<and> lookup (nodes h2) 2 = None \<and> lookup (nodes h2) 3 = None \<and>
      lookup (vals h2) 6 = None \<and> lookup (vals h2) 7 = None \<and> used h2 8 1 0 \<and> place h2 1 0 8)"
proof -
  obtain h1 m1 where
    r: "fuseConvBatchNorm_body example_ops 0 2 conv_bn_graph conv_bn_table = Inr (Some (h1, m1))"
    using conv_bn_body_runs by blast
  have p: "param_live conv_bn_graph (root_block conv_bn_graph)" "param_live conv_bn_graph 0"
    by (simp_all add: param_live_def conv_bn_graph_def lookup_def mk_node_def)
  have l: "lookup (nodes conv_bn_graph) 2 = Some (mk_node onnx_Conv [0, 1] [6] [(''group'', IntAttr 1)] [] (Some 0))"
    "n_kind (mk_node onnx_Conv [0, 1] [6] [(''group'', IntAttr 1)] [] (Some 0)) = onnx_Conv"
    "n_blocks (mk_node onnx_Conv [0, 1] [6] [(''group'', IntAttr 1)] [] (Some 0)) = []"
    "n_outputs (mk_node onnx_Conv [0, 1] [6] [(''group'', IntAttr 1)] [] (Some 0)) = [6]"
    "lookup (blocks conv_bn_graph) 0 = Some \<lparr>b_param = 0, b_return = 1, b_nodes = [2, 3]\<rparr>"
    "2 \<in> set (b_nodes \<lparr>b_param = 0, b_return = 1, b_nodes = [2, 3]\<rparr>)"
    by (simp_all add: conv_bn_graph_def lookup_def mk_node_def mk_val_def)
  have l2: "lookup (vals conv_bn_graph) 6 = Some (mk_val 2 0 [(3, 0)])"
    "fst (hd (v_uses (mk_val 2 0 [(3, 0)]))) = 3"
    "lookup (nodes conv_bn_graph) 3 =
       Some (mk_node onnx_BatchNormalization [6, 2, 3, 4, 5] [7] [(''epsilon'', FloatAttr 1)] [] (Some 0))"
    by (simp_all add: conv_bn_graph_def lookup_def mk_node_def mk_val_def)
  have u: "used conv_bn_graph 7 1 0"
    by (simp add: used_def conv_bn_graph_def lookup_def mk_val_def)
  have f: "fresh (vals conv_bn_graph) = 8" "fresh (nodes conv_bn_graph) = 4"
    "n_outputs (mk_node onnx_BatchNormalization [6, 2, 3, 4, 5] [7] [(''epsilon'', FloatAttr 1)] [] (Some 0)) ! 0 = 7"
    by (simp_all add: conv_bn_graph_def fresh_def mk_node_def)
  from fusion_redirects_uses_exactly[OF conv_bn_graph_wf p l r l2, unfolded f, of 2] u
  obtain h2 cur where
    "destroyCurrent h1 0 2 = Inr (h2, cur) \<and>
      fuse_loop (Suc 2) example_ops 0 (Some 2) (conv_bn_graph, conv_bn_table) =
        rbind (lift_err (it_next h2 0 cur)) (\<lambda>it. fuse_loop 2 example_ops 0 it (h2, m1)) \<and>
      use_lists_exact h2 \<and> lookup (nodes h2) 2 = None \<and> lookup (nodes h2) 3 = None \<and>
      lookup (vals h2) 6 = None \<and> lookup (vals h2) 7 = None \<and> used h2 8 1 0 \<and> place h2 1 0 8"
    by auto
  then show ?thesis using conv_bn_graph_wf p(2) r u by blast
qed

text \<open>
  C3. On a successful fusion, in a graph with exact use lists whose graph and block
  \<open>b\<close> have their param node and whose table binds values of the graph only. Let
  \<open>w\<close> and \<open>bi\<close> be the new weight and the new bias that the fold returns. Lines 118 to
  135 (\<open>wire_new_conv\<close>) run from the state of the fold to a state \<open>hw\<close>, and lines 137
  and 138 from \<open>hw\<close> to the state that the body returns. In \<open>hw\<close>: the new node
  \<open>fresh (nodes h)\<close> is a \<open>Conv\<close> with the one output \<open>fresh (vals h)\<close>, the attributes
  of the original convolution, and the inputs, in order, input 0 of the original
  convolution, the value that the table binds to the tensor \<open>w\<close>, and the value that the
  table binds to the tensor \<open>bi\<close>; the output has the type of the output of the
  normalization node; and in the node list of the block of the normalization node, the
  new node stands immediately before the normalization node. After line 138 the
  normalization node has left the list, and the new node is as it was in \<open>hw\<close> when the
  convolution did not read the output of its own normalization node. The normalization
  node is assumed to occur once in its block.
\<close>

theorem fusion_builds_new_conv:
  fixes h :: "'a heap"
  assumes inv: "wf_ir h" and pl: "param_live h (root_block h)" "param_live h b"
    and keys: "\<forall>v. m v \<noteq> None \<longrightarrow> lookup (vals h) v \<noteq> None"
    and body: "fuseConvBatchNorm_body ops b c h m = Inr (Some (h1, m1))"
    and cn: "lookup (nodes h) c = Some cn"
    and cv: "lookup (vals h) (n_outputs cn ! 0) = Some cv"
    and bnNode: "fst (hd (v_uses cv)) = bnNode"
    and bn: "lookup (nodes h) bnNode = Some bn"
    and bov: "lookup (vals h) (n_outputs bn ! 0) = Some bov"
    and bb: "n_owning_block bn = Some bb" and blk: "lookup (blocks h) bb = Some blk"
    and order: "b_nodes blk = pre @ bnNode # post" "bnNode \<notin> set pre" "bnNode \<notin> set post"
    and fold: "attr_f bn ''epsilon'' = Inr eps" "getValues h c m = Inr cvs"
      "getValues h bnNode m = Inr bvs"
      "fold_conv_bn ops h cvs bvs eps (length (n_inputs cn) = 3) = Inr (Some (hf, w, bi))"
  shows "\<exists>hw h12.
     wire_new_conv b c bnNode w bi hf m = Inr (hw, m1) \<and>
     replaceAllUsesWith hw (n_outputs bn ! 0) (fresh (vals h)) = Inr h12 \<and>
     destroy h12 bnNode = Inr h1 \<and>
     lookup (nodes hw) (fresh (nodes h)) =
       Some \<lparr>n_kind = onnx_Conv,
             n_inputs = [n_inputs cn ! 0, Suc (fresh (vals h)), Suc (Suc (fresh (vals h)))],
             n_outputs = [fresh (vals h)], n_attrs = n_attrs cn, n_blocks = [],
             n_owning_block = Some bb\<rparr> \<and>
     (\<exists>vv. lookup (vals hw) (fresh (vals h)) = Some vv \<and> v_node vv = fresh (nodes h) \<and>
           v_type vv = v_type bov) \<and>
     lookup (blocks hw) bb = Some (blk\<lparr>b_nodes := pre @ fresh (nodes h) # bnNode # post\<rparr>) \<and>
     (\<exists>nw. m1 (Suc (fresh (vals h))) = Some (nw, TensorIValue w)) \<and>
     (\<exists>nb. m1 (Suc (Suc (fresh (vals h)))) = Some (nb, TensorIValue bi)) \<and>
     lookup (blocks h1) bb = Some (blk\<lparr>b_nodes := pre @ fresh (nodes h) # post\<rparr>) \<and>
     (n_inputs cn ! 0 \<noteq> n_outputs bn ! 0 \<longrightarrow>
        lookup (nodes h1) (fresh (nodes h)) =
          Some \<lparr>n_kind = onnx_Conv,
                n_inputs = [n_inputs cn ! 0, Suc (fresh (vals h)), Suc (Suc (fresh (vals h)))],
                n_outputs = [fresh (vals h)], n_attrs = n_attrs cn, n_blocks = [],
                n_owning_block = Some bb\<rparr>)"
proof -
  obtain cn' cv' bnNode' off bn' eps' cvs' bvs' h0 w' bi' where
    f: "lookup (nodes h) c = Some cn'" "n_outputs cn' \<noteq> []"
    "lookup (vals h) (n_outputs cn' ! 0) = Some cv'" "v_uses cv' = [(bnNode', off)]"
    "lookup (nodes h) bnNode' = Some bn'" "n_kind bn' = onnx_BatchNormalization"
    "attr_f bn' ''epsilon'' = Inr eps'" "getValues h c m = Inr cvs'"
    "getValues h bnNode' m = Inr bvs'"
    "fold_conv_bn ops h cvs' bvs' eps' (length (n_inputs cn') = 3) = Inr (Some (h0, w', bi'))"
    "nodes h0 = nodes h" "vals h0 = vals h" "blocks h0 = blocks h" "root_block h0 = root_block h"
    "rewrite_conv_bn b c bnNode' w' bi' h0 m = Inr (h1, m1)"
    by (rule body_foldE[OF body])
  have e: "cn' = cn" "cv' = cv" "bnNode' = bnNode" "bn' = bn"
    using f(1,3,4,5) cn cv bnNode bn by auto
  note f = f[unfolded e]
  have e1: "eps' = eps" "cvs' = cvs" "bvs' = bvs"
    using f(7,8,9) fold(1,2,3) by simp_all
  have e3: "h0 = hf" "w' = w" "bi' = bi"
    using f(10)[unfolded e1] fold(4) by simp_all
  note f = f[unfolded e1 e3]
  have wf0: "wf_ir hf" using inv wf_ir_cong[OF f(11,12)] by simp
  obtain cn2 bn2 bov2 bb2 blk2 rblk bblk hw h12 where
    g: "lookup (nodes hf) c = Some cn2" "lookup (nodes hf) bnNode = Some bn2"
    "lookup (vals hf) (n_outputs bn2 ! 0) = Some bov2"
    "n_owning_block bn2 = Some bb2" "lookup (blocks hf) bb2 = Some blk2"
    "lookup (blocks hf) (root_block hf) = Some rblk" "lookup (blocks hf) b = Some bblk"
    "lookup (blocks h1) bb2 =
       Some (blk2\<lparr>b_nodes := removeAll bnNode (insert_before (fresh (nodes hf)) bnNode (b_nodes blk2))\<rparr>)"
    "b_param rblk \<noteq> fresh (nodes hf) \<Longrightarrow> b_param bblk \<noteq> fresh (nodes hf) \<Longrightarrow>
     n_inputs cn2 ! 0 \<noteq> n_outputs bn2 ! 0 \<Longrightarrow>
       lookup (nodes h1) (fresh (nodes hf)) =
         Some \<lparr>n_kind = onnx_Conv,
               n_inputs = [n_inputs cn2 ! 0, Suc (fresh (vals hf)), Suc (Suc (fresh (vals hf)))],
               n_outputs = [fresh (vals hf)], n_attrs = n_attrs cn2, n_blocks = [],
               n_owning_block = Some bb2\<rparr>"
    "wire_new_conv b c bnNode w bi hf m = Inr (hw, m1)"
    "replaceAllUsesWith hw (n_outputs bn2 ! 0) (fresh (vals hf)) = Inr h12"
    "destroy h12 bnNode = Inr h1"
    "b_param rblk \<noteq> fresh (nodes hf) \<Longrightarrow> b_param bblk \<noteq> fresh (nodes hf) \<Longrightarrow>
       lookup (nodes hw) (fresh (nodes hf)) =
         Some \<lparr>n_kind = onnx_Conv,
               n_inputs = [n_inputs cn2 ! 0, Suc (fresh (vals hf)), Suc (Suc (fresh (vals hf)))],
               n_outputs = [fresh (vals hf)], n_attrs = n_attrs cn2, n_blocks = [],
               n_owning_block = Some bb2\<rparr>"
    "lookup (vals hw) (fresh (vals hf)) =
       Some \<lparr>v_node = fresh (nodes hf), v_offset = 0, v_name = None, v_uses = [],
             v_type = v_type bov2\<rparr>"
    "lookup (blocks hw) bb2 =
       Some (blk2\<lparr>b_nodes := insert_before (fresh (nodes hf)) bnNode (b_nodes blk2)\<rparr>)"
    "m1 = map_insert (map_insert m (Suc (fresh (vals hf)))
                        (string_of_nat (Suc (fresh (vals hf))), TensorIValue w))
            (Suc (Suc (fresh (vals hf))))
            (string_of_nat (Suc (Suc (fresh (vals hf)))), TensorIValue bi)"
    by (rule rewrite_conv_bn_effect[OF wf0 f(15)]) (rule that)
  have e2: "cn2 = cn" "bn2 = bn" "bov2 = bov" "bb2 = bb" "blk2 = blk"
    using g(1-5) cn bn bov bb blk f(11-13) by auto
  have fr: "fresh (vals hf) = fresh (vals h)" "fresh (nodes hf) = fresh (nodes h)"
    using f(11,12) by simp_all
  note g = g[unfolded e2 fr f(11-14)]
  have p1: "b_param rblk \<noteq> fresh (nodes h)"
    using pl(1) g(6) by (auto simp: param_live_def split: option.splits)
  have p2: "b_param bblk \<noteq> fresh (nodes h)"
    using pl(2) g(7) by (auto simp: param_live_def split: option.splits)
  have lt: "bnNode < fresh (nodes h)" using bn by (rule lookup_Some_less)
  have l1: "insert_before (fresh (nodes h)) bnNode (b_nodes blk) =
          pre @ fresh (nodes h) # bnNode # post"
    unfolding order(1) using order(2) by (rule insert_before_split)
  have l2: "removeAll bnNode (insert_before (fresh (nodes h)) bnNode (b_nodes blk)) =
          pre @ fresh (nodes h) # post"
    unfolding order(1) using order(2,3) lt by (intro removeAll_insert_before) auto
  have k0: "m x = None" if "lookup (vals h) x = None" for x
    using keys[rule_format, of x] that by (cases "m x") simp_all
  have k1: "m (Suc (fresh (vals h))) = None" "m (Suc (Suc (fresh (vals h)))) = None"
    by (rule k0, simp add: lookup_fresh)+
  have t1: "\<exists>nw. m1 (Suc (fresh (vals h))) = Some (nw, TensorIValue w)"
    and t2: "\<exists>nb. m1 (Suc (Suc (fresh (vals h)))) = Some (nb, TensorIValue bi)"
    unfolding g(16) using k1 by (simp_all add: map_insert_def del: string_of_nat.simps)
  have u: "\<exists>vv. lookup (vals hw) (fresh (vals h)) = Some vv \<and> v_node vv = fresh (nodes h) \<and>
           v_type vv = v_type bov"
    using g(14) by simp
  show ?thesis
    using g(10,11,12) g(13)[OF p1 p2] u g(15)[unfolded l1] t1 t2 g(8)[unfolded l2]
      g(9)[OF p1 p2]
    by (intro exI[of _ hw] exI[of _ h12] conjI impI) assumption+
qed

theorem fusion_builds_new_conv_witness:
  "wf_ir conv_bn_graph \<and> param_live conv_bn_graph 0 \<and>
   (\<exists>h1 m1 hf hw h12.
      fuseConvBatchNorm_body example_ops 0 2 conv_bn_graph conv_bn_table = Inr (Some (h1, m1)) \<and>
      fold_conv_bn example_ops conv_bn_graph [0] [1, 2, 3, 4] 1 False = Inr (Some (hf, 11, 12)) \<and>
      wire_new_conv 0 2 3 11 12 hf conv_bn_table = Inr (hw, m1) \<and>
      replaceAllUsesWith hw 7 8 = Inr h12 \<and> destroy h12 3 = Inr h1 \<and>
      lookup (nodes hw) 4 =
        Some \<lparr>n_kind = onnx_Conv, n_inputs = [0, 9, 10], n_outputs = [8],
              n_attrs = [(''group'', IntAttr 1)], n_blocks = [], n_owning_block = Some 0\<rparr> \<and>
      lookup (blocks hw) 0 = Some \<lparr>b_param = 0, b_return = 1, b_nodes = [2, 4, 3]\<rparr> \<and>
      (\<exists>nw. m1 9 = Some (nw, TensorIValue 11)) \<and> (\<exists>nb. m1 10 = Some (nb, TensorIValue 12)) \<and>
      lookup (blocks h1) 0 = Some \<lparr>b_param = 0, b_return = 1, b_nodes = [2, 4]\<rparr> \<and>
      lookup (nodes h1) 4 =
        Some \<lparr>n_kind = onnx_Conv, n_inputs = [0, 9, 10], n_outputs = [8],
              n_attrs = [(''group'', IntAttr 1)], n_blocks = [], n_owning_block = Some 0\<rparr>)"
proof -
  obtain h1 m1 where
    r: "fuseConvBatchNorm_body example_ops 0 2 conv_bn_graph conv_bn_table = Inr (Some (h1, m1))"
    using conv_bn_body_runs by blast
  obtain hf where
    fo: "fold_conv_bn example_ops conv_bn_graph [0] [1, 2, 3, 4] 1 False = Inr (Some (hf, 11, 12))"
    using conv_bn_fold_runs by blast
  have p: "param_live conv_bn_graph (root_block conv_bn_graph)" "param_live conv_bn_graph 0"
    by (simp_all add: param_live_def conv_bn_graph_def lookup_def mk_node_def)
  have l: "lookup (nodes conv_bn_graph) 2 = Some (mk_node onnx_Conv [0, 1] [6] [(''group'', IntAttr 1)] [] (Some 0))"
    "lookup (vals conv_bn_graph) (n_outputs (mk_node onnx_Conv [0, 1] [6] [(''group'', IntAttr 1)] [] (Some 0)) ! 0)
       = Some (mk_val 2 0 [(3, 0)])"
    "fst (hd (v_uses (mk_val 2 0 [(3, 0)]))) = 3"
    "lookup (nodes conv_bn_graph) 3 =
       Some (mk_node onnx_BatchNormalization [6, 2, 3, 4, 5] [7] [(''epsilon'', FloatAttr 1)] [] (Some 0))"
    "lookup (vals conv_bn_graph)
       (n_outputs (mk_node onnx_BatchNormalization [6, 2, 3, 4, 5] [7] [(''epsilon'', FloatAttr 1)] [] (Some 0)) ! 0)
       = Some (mk_val 3 0 [(1, 0)])"
    "n_owning_block (mk_node onnx_BatchNormalization [6, 2, 3, 4, 5] [7] [(''epsilon'', FloatAttr 1)] [] (Some 0))
       = Some 0"
    "lookup (blocks conv_bn_graph) 0 = Some \<lparr>b_param = 0, b_return = 1, b_nodes = [2, 3]\<rparr>"
    "b_nodes \<lparr>b_param = 0, b_return = 1, b_nodes = [2, 3]\<rparr> = [2] @ 3 # []"
    "3 \<notin> set [2::nat]" "3 \<notin> set ([] :: nat list)"
    "attr_f (mk_node onnx_BatchNormalization [6, 2, 3, 4, 5] [7] [(''epsilon'', FloatAttr 1)] [] (Some 0))
       ''epsilon'' = Inr (1::int)"
    by (simp_all add: conv_bn_graph_def lookup_def mk_node_def mk_val_def attr_f_def)
  have g: "getValues conv_bn_graph 2 conv_bn_table = Inr [0]"
    "getValues conv_bn_graph 3 conv_bn_table = Inr [1, 2, 3, 4]"
    using conv_bn_fold_runs by simp_all
  have fo': "fold_conv_bn example_ops conv_bn_graph [0] [1, 2, 3, 4] 1
       (length (n_inputs (mk_node onnx_Conv [0, 1] [6] [(''group'', IntAttr 1)] [] (Some 0))) = 3)
       = Inr (Some (hf, 11, 12))"
    using fo by (simp add: mk_node_def)
  have f: "fresh (vals conv_bn_graph) = 8" "fresh (nodes conv_bn_graph) = 4"
    "n_outputs (mk_node onnx_BatchNormalization [6, 2, 3, 4, 5] [7] [(''epsilon'', FloatAttr 1)] [] (Some 0)) ! 0 = 7"
    by (simp_all add: conv_bn_graph_def fresh_def mk_node_def)
  from fusion_builds_new_conv[OF conv_bn_graph_wf p conv_bn_table_keys r l g fo', unfolded f]
  obtain hw h12 where
    "wire_new_conv 0 2 3 11 12 hf conv_bn_table = Inr (hw, m1) \<and>
      replaceAllUsesWith hw 7 8 = Inr h12 \<and> destroy h12 3 = Inr h1 \<and>
      lookup (nodes hw) 4 =
        Some \<lparr>n_kind = onnx_Conv, n_inputs = [0, 9, 10], n_outputs = [8],
              n_attrs = [(''group'', IntAttr 1)], n_blocks = [], n_owning_block = Some 0\<rparr> \<and>
      lookup (blocks hw) 0 = Some \<lparr>b_param = 0, b_return = 1, b_nodes = [2, 4, 3]\<rparr> \<and>
      (\<exists>nw. m1 9 = Some (nw, TensorIValue 11)) \<and> (\<exists>nb. m1 10 = Some (nb, TensorIValue 12)) \<and>
      lookup (blocks h1) 0 = Some \<lparr>b_param = 0, b_return = 1, b_nodes = [2, 4]\<rparr> \<and>
      lookup (nodes h1) 4 =
        Some \<lparr>n_kind = onnx_Conv, n_inputs = [0, 9, 10], n_outputs = [8],
              n_attrs = [(''group'', IntAttr 1)], n_blocks = [], n_owning_block = Some 0\<rparr>"
    by (auto simp: mk_node_def eval_nat_numeral)
  then show ?thesis using conv_bn_graph_wf p(2) r fo by blast
qed




end
